theory Spec2Isabelle
  imports Main
begin

section \<open>The bootstrap script \<^verbatim>\<open>scripts/k3d_bootstrap.sh\<close>\<close>

text \<open>
  The script is a sequence of shell functions run under \<^verbatim>\<open>set -e\<close> with
  \<^verbatim>\<open>trap cleanup EXIT\<close>. It is embedded as state-passing functions over a
  record \<open>world\<close> that holds what the script reads and writes: the tools on the
  path, the k3d clusters, the handle file \<^verbatim>\<open>/tmp/argocd-port-forward.pid\<close>, the
  process table, the shell variable \<^verbatim>\<open>ARGOCD_PASSWORD\<close>, the registered EXIT
  trap, and the trace of what the script has done so far. What the external tools answer
  is a parameter of the world. The model is sequential: nothing happens between two
  commands of the script, and the handle file, when it exists, is a regular file that
  the user may read, overwrite and remove.
\<close>

subsection \<open>Configuration (lines 9-12)\<close>

definition CLUSTER_NAME :: string where "CLUSTER_NAME = ''ca-dev''"
definition ARGOCD_VERSION :: string where "ARGOCD_VERSION = ''v2.11.0''"
definition NGINX_VERSION :: string where "NGINX_VERSION = ''v1.10.0''"
definition KEDA_VERSION :: string where "KEDA_VERSION = ''v2.12.0''"

definition PID_FILE :: string where "PID_FILE = ''/tmp/argocd-port-forward.pid''"

subsection \<open>External commands, events and the world\<close>

datatype component = IngressNginx | Keda | ArgoCD

text \<open>
  One label for each invocation of an external tool whose exit status the script does
  not test itself, so that \<^verbatim>\<open>set -e\<close> ends the run when it fails.
\<close>

datatype ext =
    K3dClusterDelete
  | K3dClusterCreate
  | KubectlUseContext
  | HelmRepoAdd component
  | HelmRepoUpdate component
  | HelmUpgradeInstall component
  | KubectlApplyNamespace string
  | KubectlApplyArgoInstall
  | KubectlWaitArgoServer
  | KubectlApplyApp
  | Sleep

text \<open>
  What happens while an external command runs: it succeeds, it fails with a non-zero
  status, or a termination signal that the shell can catch (INT, TERM, HUP) reaches the
  shell, which then leaves through its EXIT trap.
\<close>

datatype outcome = Succeeds | Fails | Interrupted

datatype level = INFO | SUCCESS | WARNING | ERROR

datatype handler = CleanupHandler

datatype status = Continue | Returned nat | Exiting nat | Killed

text \<open>
  The trace records the lines that the logging functions print, the external commands
  that ran, what the commands of line 140 wrote on the standard error of the script
  (the messages of the other external commands are not recorded), and what happened to
  the tunnel process and to the handle file.
\<close>

datatype event =
    LogLine level string
  | Echo string
  | Run ext
  | ReadSecret
  | Stderr string
  | Spawn nat
  | WritePid nat
  | Kill nat
  | RemovePid
  | RunTrap handler
  | ProcessExit status

record world =
  installed :: "string \<Rightarrow> bool"
  clusters :: "(string \<times> nat) list"
  clock :: nat
  outcome_of :: "ext \<Rightarrow> outcome"
  ready_after :: "component \<Rightarrow> nat option"
  helm_wait_limit :: nat
  secret_data :: "nat \<Rightarrow> string option"
  secret_reads :: nat
  base64_decode :: "string \<Rightarrow> string option"
  app_yaml :: bool
  pidfile :: "nat option"
  alive :: "nat set"
  own_group :: "nat set"
  shell_pid :: nat
  last_pid :: nat
  ARGOCD_PASSWORD :: string
  trap_exit :: "handler option"
  trace :: "event list"

text \<open>
  The handle file holds a number. \<open>alive\<close> are the running processes that the user may
  signal, by their process identifiers; \<open>own_group\<close> are the ones in the process group
  of the shell that runs the script, and \<open>shell_pid\<close> is the process identifier of that
  shell. Process identifiers are positive, and no new process gets the identifier of
  the running shell: the next one to be given out is the first one above the last that
  is not the shell's.
\<close>

definition next_pid :: "world \<Rightarrow> nat" where
  "next_pid w =
     (if Suc (last_pid w) = shell_pid w then Suc (Suc (last_pid w)) else Suc (last_pid w))"

type_synonym command = "world \<Rightarrow> status \<times> world"

subsection \<open>The shell: sequencing under \<^verbatim>\<open>set -e\<close>, calls, exit\<close>

text \<open>
  A list of commands runs in order; the first one that does not complete normally ends
  the list with its status (\<^verbatim>\<open>set -e\<close>, line 6).
\<close>

fun commands :: "command list \<Rightarrow> command" where
  "commands [] w = (Continue, w)"
| "commands (c # cs) w =
     (case c w of
        (Continue, w') \<Rightarrow> commands cs w'
      | (st, w') \<Rightarrow> (st, w'))"

text \<open>
  A function called as a simple command: \<^verbatim>\<open>return n\<close> with \<open>n \<noteq> 0\<close> is a
  failing command, which \<^verbatim>\<open>set -e\<close> turns into leaving the shell with status \<open>n\<close>.
\<close>

definition call :: "command \<Rightarrow> command" where
  "call f w =
     (case f w of
        (Returned n, w') \<Rightarrow> if n = 0 then (Continue, w') else (Exiting n, w')
      | r \<Rightarrow> r)"

text \<open>
  \<^verbatim>\<open>if TEST; then ...; fi\<close> and \<^verbatim>\<open>if TEST; then ...; else ...; fi\<close>, for a
  test that only reads the world; \<open>expand v c\<close> is a command that mentions the shell
  variable \<open>v\<close>, expanded when the command runs.
\<close>

definition if_then :: "(world \<Rightarrow> bool) \<Rightarrow> command \<Rightarrow> command" where
  "if_then b c w = (if b w then c w else (Continue, w))"

definition if_then_else :: "(world \<Rightarrow> bool) \<Rightarrow> command \<Rightarrow> command \<Rightarrow> command" where
  "if_then_else b c d w = (if b w then c w else d w)"

definition expand :: "(world \<Rightarrow> 'a) \<Rightarrow> ('a \<Rightarrow> command) \<Rightarrow> command" where
  "expand v c w = c (v w) w"

text \<open>
  The logging functions of lines 22-36 print a coloured level tag and the message; the
  trace keeps the level and the message. The decorative glyphs of the messages (bullets,
  emoji) are left out.
\<close>

definition emit :: "event \<Rightarrow> world \<Rightarrow> world" where
  "emit e w = w\<lparr>trace := trace w @ [e]\<rparr>"

definition log_info :: "string \<Rightarrow> command" where
  "log_info m w = (Continue, emit (LogLine INFO m) w)"

definition log_success :: "string \<Rightarrow> command" where
  "log_success m w = (Continue, emit (LogLine SUCCESS m) w)"

definition log_warning :: "string \<Rightarrow> command" where
  "log_warning m w = (Continue, emit (LogLine WARNING m) w)"

definition log_error :: "string \<Rightarrow> command" where
  "log_error m w = (Continue, emit (LogLine ERROR m) w)"

definition echo :: "string \<Rightarrow> command" where
  "echo m w = (Continue, emit (Echo m) w)"

definition exit_sh :: "nat \<Rightarrow> command" where
  "exit_sh n w = (Exiting n, w)"

definition return_sh :: "nat \<Rightarrow> command" where
  "return_sh n w = (Returned n, w)"

text \<open>
  An external command: recorded in the trace, its result read from the world. A failing
  command ends the run under \<^verbatim>\<open>set -e\<close> with the status of that command, taken
  to be 1; a signal ends it through the same exit path.
\<close>

definition run_ext :: "ext \<Rightarrow> command" where
  "run_ext x w =
     (case outcome_of w x of
        Succeeds \<Rightarrow> (Continue, emit (Run x) w)
      | Fails \<Rightarrow> (Exiting 1, emit (Run x) w)
      | Interrupted \<Rightarrow> (Killed, emit (Run x) w))"

subsection \<open>What the external tools do to the world\<close>

text \<open>
  \<^verbatim>\<open>grep -q PATTERN\<close> succeeds when some line of its input contains the pattern
  as a substring.
\<close>

fun starts_with :: "string \<Rightarrow> string \<Rightarrow> bool" where
  "starts_with [] s = True"
| "starts_with (p # ps) [] = False"
| "starts_with (p # ps) (c # cs) = (p = c \<and> starts_with ps cs)"

fun line_contains :: "string \<Rightarrow> string \<Rightarrow> bool" where
  "line_contains pat [] = (pat = [])"
| "line_contains pat (c # cs) = (starts_with pat (c # cs) \<or> line_contains pat cs)"

definition grep_q :: "string \<Rightarrow> string list \<Rightarrow> bool" where
  "grep_q pat ls = list_ex (line_contains pat) ls"

text \<open>
  \<^verbatim>\<open>k3d cluster list\<close> prints one row for each cluster, the name first. Only the
  name column is kept: the header and the other columns hold counts and flags.
\<close>

definition k3d_cluster_list :: "world \<Rightarrow> string list" where
  "k3d_cluster_list w = map fst (clusters w)"

text \<open>\<^verbatim>\<open>k3d cluster delete NAME\<close> returns once the cluster of that name is gone.\<close>

definition k3d_cluster_delete :: "string \<Rightarrow> command" where
  "k3d_cluster_delete name w =
     (case run_ext K3dClusterDelete w of
        (Continue, w') \<Rightarrow>
          (Continue, w'\<lparr>clusters := filter (\<lambda>c. fst c \<noteq> name) (clusters w')\<rparr>)
      | r \<Rightarrow> r)"

text \<open>
  \<^verbatim>\<open>k3d cluster create NAME ... --wait\<close> refuses a name that is in use; otherwise
  the new cluster is stamped with the time of its creation.
\<close>

definition k3d_cluster_create :: "string \<Rightarrow> command" where
  "k3d_cluster_create name w =
     (case run_ext K3dClusterCreate w of
        (Continue, w') \<Rightarrow>
          if name \<in> set (map fst (clusters w')) then (Exiting 1, w')
          else (Continue, w'\<lparr>clusters := clusters w' @ [(name, clock w')]\<rparr>)
      | r \<Rightarrow> r)"

text \<open>
  \<^verbatim>\<open>helm upgrade --install ... --wait\<close> (no \<^verbatim>\<open>--timeout\<close> is passed): the
  install operation itself waits until the release is available, for at most helm's own
  limit, a property of the tool and so a parameter of the world.
\<close>

definition helm_upgrade_install_wait :: "component \<Rightarrow> command" where
  "helm_upgrade_install_wait c w =
     (case run_ext (HelmUpgradeInstall c) w of
        (Continue, w') \<Rightarrow>
          (case ready_after w' c of
             None \<Rightarrow> (Exiting 1, w'\<lparr>clock := clock w' + helm_wait_limit w'\<rparr>)
           | Some t \<Rightarrow>
               if t \<le> helm_wait_limit w' then (Continue, w'\<lparr>clock := clock w' + t\<rparr>)
               else (Exiting 1, w'\<lparr>clock := clock w' + helm_wait_limit w'\<rparr>))
      | r \<Rightarrow> r)"

text \<open>
  \<^verbatim>\<open>kubectl wait --for=condition=available --timeout=Ns deployment/D\<close>: a step of
  the script, separate from the install, that gives up after \<open>N\<close> time units.
\<close>

definition kubectl_wait_available :: "nat \<Rightarrow> component \<Rightarrow> command" where
  "kubectl_wait_available timeout c w =
     (case run_ext KubectlWaitArgoServer w of
        (Continue, w') \<Rightarrow>
          (case ready_after w' c of
             None \<Rightarrow> (Exiting 1, w'\<lparr>clock := clock w' + timeout\<rparr>)
           | Some t \<Rightarrow>
               if t \<le> timeout then (Continue, w'\<lparr>clock := clock w' + t\<rparr>)
               else (Exiting 1, w'\<lparr>clock := clock w' + timeout\<rparr>))
      | r \<Rightarrow> r)"

text \<open>
  \<^verbatim>\<open>base64 -d\<close> is a tool like the others: \<open>base64_decode w s\<close> is what it
  prints for the input \<open>s\<close> when it ends with status 0, and \<open>None\<close> when it ends with
  another status, after a complaint on its standard error.

  \<^verbatim>\<open>$(...)\<close>: the shell drops the null bytes of what the command printed, with
  a warning on its standard error when there are any, and then every newline at the
  end.
\<close>

definition invalid_input :: string where
  "invalid_input = ''base64: invalid input''"

definition ignored_null_byte :: string where
  "ignored_null_byte = ''warning: command substitution: ignored null byte in input''"

definition command_substitution :: "string \<Rightarrow> string" where
  "command_substitution out =
     rev (dropWhile (\<lambda>c. c = CHR 0x0A) (rev (filter (\<lambda>c. c \<noteq> CHR 0x00) out)))"

text \<open>
  \<^verbatim>\<open>kubectl -n argocd get secret ... -o jsonpath="{.data.password}"\<close>: the
  \<open>n\<close>-th read of the run sees \<open>secret_data w n\<close>; it prints the encoded password, or,
  while the secret does not exist, it prints nothing, complains on its standard error
  (which line 140 does not redirect) and fails. The message is kept without its
  quotation marks.
\<close>

definition secret_not_found :: string where
  "secret_not_found = ''Error from server (NotFound): secrets argocd-initial-admin-secret not found''"

definition kubectl_get_secret :: "world \<Rightarrow> string \<times> world" where
  "kubectl_get_secret w =
     (let n = secret_reads w + 1;
          w' = emit ReadSecret (w\<lparr>secret_reads := n\<rparr>)
      in case secret_data w n of
           None \<Rightarrow> ([], emit (Stderr secret_not_found) w')
         | Some d \<Rightarrow> (d, w'))"

text \<open>\<^verbatim>\<open>sleep N\<close> lets \<open>N\<close> time units pass.\<close>

definition sleep :: "nat \<Rightarrow> command" where
  "sleep n w =
     (case run_ext Sleep w of
        (Continue, w') \<Rightarrow> (Continue, w'\<lparr>clock := clock w' + n\<rparr>)
      | r \<Rightarrow> r)"

subsection \<open>\<^verbatim>\<open>check_prerequisites\<close> (lines 39-58)\<close>

definition check_prerequisites :: command where
  "check_prerequisites = commands
     [log_info ''Checking prerequisites...'',
      if_then (\<lambda>w. \<not> installed w ''k3d'')
        (commands
           [log_error ''k3d is not installed. Please install k3d first.'',
            exit_sh 1]),
      if_then (\<lambda>w. \<not> installed w ''kubectl'')
        (commands
           [log_error ''kubectl is not installed. Please install kubectl first.'',
            exit_sh 1]),
      if_then (\<lambda>w. \<not> installed w ''helm'')
        (commands
           [log_error ''helm is not installed. Please install helm first.'',
            exit_sh 1]),
      log_success ''All prerequisites are installed'']"

subsection \<open>\<^verbatim>\<open>create_cluster\<close> (lines 61-83)\<close>

definition create_cluster :: command where
  "create_cluster = commands
     [log_info (''Creating k3d cluster: '' @ CLUSTER_NAME @ ''...''),
      if_then (\<lambda>w. grep_q CLUSTER_NAME (k3d_cluster_list w))
        (commands
           [log_warning (''Cluster '' @ CLUSTER_NAME
                          @ '' already exists. Deleting it first...''),
            k3d_cluster_delete CLUSTER_NAME]),
      k3d_cluster_create CLUSTER_NAME,
      run_ext KubectlUseContext,
      log_success (''k3d cluster '' @ CLUSTER_NAME @ '' created successfully'')]"

subsection \<open>\<^verbatim>\<open>install_ingress_nginx\<close> (lines 86-105) and \<^verbatim>\<open>install_keda\<close> (lines 108-123)\<close>

definition install_ingress_nginx :: command where
  "install_ingress_nginx = commands
     [log_info (''Installing Ingress-NGINX '' @ NGINX_VERSION @ ''...''),
      run_ext (HelmRepoAdd IngressNginx),
      run_ext (HelmRepoUpdate IngressNginx),
      helm_upgrade_install_wait IngressNginx,
      log_success ''Ingress-NGINX installed successfully'']"

definition install_keda :: command where
  "install_keda = commands
     [log_info (''Installing KEDA '' @ KEDA_VERSION @ ''...''),
      run_ext (HelmRepoAdd Keda),
      run_ext (HelmRepoUpdate Keda),
      helm_upgrade_install_wait Keda,
      log_success ''KEDA installed successfully'']"

subsection \<open>\<^verbatim>\<open>install_argocd\<close> (lines 126-153)\<close>

text \<open>
  Line 140: \<^verbatim>\<open>ARGOCD_PASSWORD=$(kubectl ... get secret ... | base64 -d)\<close>. The
  status of the pipeline is that of \<^verbatim>\<open>base64 -d\<close> (no \<^verbatim>\<open>pipefail\<close>), so a
  failing \<^verbatim>\<open>kubectl get\<close> only makes the input of \<^verbatim>\<open>base64 -d\<close> empty. The
  status of the assignment is that of the command substitution.
\<close>

definition read_admin_password :: command where
  "read_admin_password w =
     (case kubectl_get_secret w of
        (out, w') \<Rightarrow>
          (case base64_decode w' out of
             None \<Rightarrow> (Exiting 1, emit (Stderr invalid_input) w')
           | Some decoded \<Rightarrow>
               (Continue,
                (if CHR 0x00 \<in> set decoded then emit (Stderr ignored_null_byte) w' else w')
                  \<lparr>ARGOCD_PASSWORD := command_substitution decoded\<rparr>)))"

text \<open>
  Lines 147-150: \<^verbatim>\<open>kubectl port-forward ... &\<close>, \<^verbatim>\<open>ARGOCD_PF_PID=$!\<close>,
  \<^verbatim>\<open>echo "${ARGOCD_PF_PID}" > /tmp/argocd-port-forward.pid\<close>. The script is
  not interactive, so the background process stays in the process group of the shell.
\<close>

definition spawn_port_forward :: "world \<Rightarrow> nat \<times> world" where
  "spawn_port_forward w =
     (next_pid w,
      emit (Spawn (next_pid w))
        (w\<lparr>alive := insert (next_pid w) (alive w),
           own_group := insert (next_pid w) (own_group w),
           last_pid := next_pid w\<rparr>))"

definition write_pidfile :: "nat \<Rightarrow> command" where
  "write_pidfile p w = (Continue, emit (WritePid p) (w\<lparr>pidfile := Some p\<rparr>))"

definition start_port_forward :: command where
  "start_port_forward w =
     (case spawn_port_forward w of (p, w') \<Rightarrow> write_pidfile p w')"

definition install_argocd :: command where
  "install_argocd = commands
     [log_info (''Installing ArgoCD '' @ ARGOCD_VERSION @ ''...''),
      run_ext (KubectlApplyNamespace ''argocd''),
      run_ext KubectlApplyArgoInstall,
      log_info ''Waiting for ArgoCD to be ready...'',
      kubectl_wait_available 300 ArgoCD,
      read_admin_password,
      log_success ''ArgoCD installed successfully'',
      expand ARGOCD_PASSWORD (\<lambda>p. log_info (''ArgoCD admin password: '' @ p)),
      log_info ''Setting up port forwarding for ArgoCD (localhost:8080)...'',
      start_port_forward,
      log_info ''ArgoCD will be available at https://localhost:8080'',
      log_info (''Port forward PID saved to '' @ PID_FILE)]"

subsection \<open>\<^verbatim>\<open>deploy_application\<close> (lines 156-177)\<close>

definition deploy_application :: command where
  "deploy_application = commands
     [log_info ''Deploying ContractAnalyzer application...'',
      run_ext (KubectlApplyNamespace ''contract-analyzer''),
      if_then_else app_yaml
        (commands
           [run_ext KubectlApplyApp,
            log_success ''ContractAnalyzer ArgoCD application created''])
        (commands
           [log_error ''ArgoCD application file not found: deploy/argocd/app.yaml'',
            log_warning
              ''Please ensure you're running this script from the project root directory'',
            return_sh 1]),
      log_info ''Waiting for application to sync (this may take a few minutes)...'',
      sleep 30,
      log_success ''ContractAnalyzer application deployed successfully'']"

subsection \<open>\<^verbatim>\<open>display_info\<close> (lines 180-202)\<close>

definition display_info :: command where
  "display_info = commands
     [log_success ''k3d cluster setup completed successfully!'',
      echo [],
      log_info ''Cluster Information:'',
      echo (''  Cluster Name: '' @ CLUSTER_NAME),
      echo (''  Kubectl Context: k3d-'' @ CLUSTER_NAME),
      echo ''  Ingress-NGINX: Installed'',
      echo ''  KEDA: Installed'',
      echo ''  ArgoCD: Installed'',
      echo [],
      log_info ''Access Information:'',
      echo ''  ArgoCD UI: https://localhost:8080'',
      echo ''  ArgoCD Username: admin'',
      expand ARGOCD_PASSWORD (\<lambda>p. echo (''  ArgoCD Password: '' @ p)),
      echo [],
      log_info ''Useful Commands:'',
      echo ''  View cluster: k3d cluster list'',
      echo (''  Delete cluster: k3d cluster delete '' @ CLUSTER_NAME),
      echo (''  Stop port forward: kill $(cat '' @ PID_FILE @ '')''),
      echo ''  View ArgoCD apps: kubectl get applications -n argocd'',
      echo ''  View pods: kubectl get pods -n contract-analyzer'',
      echo []]"

subsection \<open>\<^verbatim>\<open>cleanup\<close> (lines 205-213)\<close>

text \<open>
  \<^verbatim>\<open>kill -0 "$PID"\<close> only asks whether a signal could be sent. The process
  identifier 0 stands for the process group of the shell itself; that group and the
  shell always exist.
\<close>

definition kill_0 :: "nat \<Rightarrow> world \<Rightarrow> bool" where
  "kill_0 p w = (p = 0 \<or> p = shell_pid w \<or> p \<in> alive w)"

text \<open>
  \<^verbatim>\<open>kill "$PID"\<close> delivers TERM. To the process identifier 0: every process of
  the shell's own group ends, the shell included, so that no later command runs. To
  the shell itself: the shell ends. To another process: it ends; when there is no such
  process, \<^verbatim>\<open>kill\<close> fails, which ends the shell under \<^verbatim>\<open>set -e\<close>.
\<close>

definition kill_pid :: "nat \<Rightarrow> command" where
  "kill_pid p w =
     (if p = 0 then (Killed, emit (Kill 0) (w\<lparr>alive := alive w - own_group w\<rparr>))
      else if p = shell_pid w then (Killed, emit (Kill p) (w\<lparr>alive := alive w - {p}\<rparr>))
      else if p \<in> alive w then (Continue, emit (Kill p) (w\<lparr>alive := alive w - {p}\<rparr>))
      else (Exiting 1, w))"

definition rm_f_pidfile :: command where
  "rm_f_pidfile w = (Continue, emit RemovePid (w\<lparr>pidfile := None\<rparr>))"

definition cleanup :: command where
  "cleanup w =
     (case pidfile w of
        None \<Rightarrow> (Continue, w)
      | Some PID \<Rightarrow>
          if kill_0 PID w
          then commands [kill_pid PID, rm_f_pidfile] w
          else (Continue, w))"

subsection \<open>\<^verbatim>\<open>main\<close> (lines 219-231) and the script as a whole\<close>

definition main :: command where
  "main = commands
     [log_info ''Starting k3d bootstrap for ContractAnalyzer...'',
      call check_prerequisites,
      call create_cluster,
      call install_ingress_nginx,
      call install_keda,
      call install_argocd,
      call deploy_application,
      call display_info,
      log_success ''Bootstrap completed!'']"

text \<open>Line 216: \<^verbatim>\<open>trap cleanup EXIT\<close>.\<close>

definition trap_cleanup_EXIT :: command where
  "trap_cleanup_EXIT w = (Continue, w\<lparr>trap_exit := Some CleanupHandler\<rparr>)"

text \<open>
  Leaving the shell, whatever the reason: the handler registered for EXIT runs first
  (with the trap cleared, so that it cannot fire again), then the process ends. A
  handler that fails under \<^verbatim>\<open>set -e\<close> replaces the exit status.
\<close>

definition run_handler :: "handler \<Rightarrow> command" where
  "run_handler h = (case h of CleanupHandler \<Rightarrow> cleanup)"

definition shell_exit :: "status \<Rightarrow> world \<Rightarrow> status \<times> world" where
  "shell_exit st w =
     (case trap_exit w of
        None \<Rightarrow> (st, emit (ProcessExit st) w)
      | Some h \<Rightarrow>
          (case run_handler h (emit (RunTrap h) (w\<lparr>trap_exit := None\<rparr>)) of
             (Exiting n, w') \<Rightarrow> (Exiting n, emit (ProcessExit (Exiting n)) w')
           | (_, w') \<Rightarrow> (st, emit (ProcessExit st) w')))"

text \<open>
  A run of the script starts with an empty trace and no trap, registers the trap
  (line 216), calls \<^verbatim>\<open>main\<close> (line 234) and leaves the shell.
\<close>

definition boot :: "world \<Rightarrow> world" where
  "boot w = w\<lparr>trap_exit := None, trace := [], secret_reads := 0\<rparr>"

definition script :: "world \<Rightarrow> status \<times> world" where
  "script w0 =
     (case commands [trap_cleanup_EXIT, call main] (boot w0) of
        (st, w) \<Rightarrow> shell_exit st w)"

subsection \<open>Reading traces\<close>

text \<open>
  The function of the script that issues an event. Log lines are issued by every
  function and have no single origin; the trap and the end of the process belong to the
  shell itself.
\<close>

datatype origin = CheckPrerequisites | CreateCluster | InstallIngressNginx | InstallKeda
  | InstallArgocd | DeployApplication | DisplayInfo | Cleanup | Shell

fun component_origin :: "component \<Rightarrow> origin" where
  "component_origin IngressNginx = InstallIngressNginx"
| "component_origin Keda = InstallKeda"
| "component_origin ArgoCD = InstallArgocd"

fun ext_origin :: "ext \<Rightarrow> origin" where
  "ext_origin K3dClusterDelete = CreateCluster"
| "ext_origin K3dClusterCreate = CreateCluster"
| "ext_origin KubectlUseContext = CreateCluster"
| "ext_origin (HelmRepoAdd c) = component_origin c"
| "ext_origin (HelmRepoUpdate c) = component_origin c"
| "ext_origin (HelmUpgradeInstall c) = component_origin c"
| "ext_origin (KubectlApplyNamespace ns) =
     (if ns = ''argocd'' then InstallArgocd else DeployApplication)"
| "ext_origin KubectlApplyArgoInstall = InstallArgocd"
| "ext_origin KubectlWaitArgoServer = InstallArgocd"
| "ext_origin KubectlApplyApp = DeployApplication"
| "ext_origin Sleep = DeployApplication"

fun origin_of :: "event \<Rightarrow> origin option" where
  "origin_of (LogLine l m) = None"
| "origin_of (Echo m) = Some DisplayInfo"
| "origin_of (Run x) = Some (ext_origin x)"
| "origin_of ReadSecret = Some InstallArgocd"
| "origin_of (Stderr m) = Some InstallArgocd"
| "origin_of (Spawn p) = Some InstallArgocd"
| "origin_of (WritePid p) = Some InstallArgocd"
| "origin_of (Kill p) = Some Cleanup"
| "origin_of RemovePid = Some Cleanup"
| "origin_of (RunTrap h) = Some Shell"
| "origin_of (ProcessExit st) = Some Shell"

text \<open>An event that is a log line or comes from one of the listed functions.\<close>

definition from_only :: "origin list \<Rightarrow> event \<Rightarrow> bool" where
  "from_only os e = (case origin_of e of None \<Rightarrow> True | Some f \<Rightarrow> f \<in> set os)"

fun is_spawn :: "event \<Rightarrow> bool" where
  "is_spawn (Spawn p) = True"
| "is_spawn e = False"

fun is_trap :: "event \<Rightarrow> bool" where
  "is_trap (RunTrap h) = True"
| "is_trap e = False"

fun is_exit :: "event \<Rightarrow> bool" where
  "is_exit (ProcessExit st) = True"
| "is_exit e = False"

fun is_warning_or_error :: "event \<Rightarrow> bool" where
  "is_warning_or_error (LogLine l m) = (l = WARNING \<or> l = ERROR)"
| "is_warning_or_error e = False"

text \<open>What \<^verbatim>\<open>install_argocd\<close> does after its readiness wait (lines 139-152).\<close>

fun after_wait :: "event \<Rightarrow> bool" where
  "after_wait ReadSecret = True"
| "after_wait (Stderr m) = True"
| "after_wait (Spawn p) = True"
| "after_wait (WritePid p) = True"
| "after_wait e = False"

text \<open>
  \<open>precedes P Q tr\<close>: in the trace \<open>tr\<close> no event satisfying \<open>Q\<close> comes before the
  first event satisfying \<open>P\<close>; in particular \<open>Q\<close> never happens when \<open>P\<close> never does.
\<close>

fun precedes :: "('a \<Rightarrow> bool) \<Rightarrow> ('a \<Rightarrow> bool) \<Rightarrow> 'a list \<Rightarrow> bool" where
  "precedes P Q [] = True"
| "precedes P Q (x # xs) = (if P x then True else (\<not> Q x \<and> precedes P Q xs))"

text \<open>What the script did before the EXIT trap fired.\<close>

definition before_trap :: "event list \<Rightarrow> event list" where
  "before_trap tr = takeWhile (\<lambda>e. \<not> is_trap e) tr"

text \<open>Whether a component reports available within \<open>n\<close> time units of its install.\<close>

definition available_within :: "nat \<Rightarrow> world \<Rightarrow> component \<Rightarrow> bool" where
  "available_within n w c = (case ready_after w c of None \<Rightarrow> False | Some t \<Rightarrow> t \<le> n)"

text \<open>The tools that \<^verbatim>\<open>check_prerequisites\<close> looks for, in the order of its tests.\<close>

definition required_tools :: "string list" where
  "required_tools = [''k3d'', ''kubectl'', ''helm'']"

text \<open>
  The external commands of the script, and a host on which nothing stands in the way of
  the run: the tools are installed, every external command succeeds, each component is
  available within the bound of its wait, and the application descriptor is there.
\<close>

definition script_commands :: "ext list" where
  "script_commands =
     [K3dClusterDelete, K3dClusterCreate, KubectlUseContext,
      HelmRepoAdd IngressNginx, HelmRepoUpdate IngressNginx, HelmUpgradeInstall IngressNginx,
      HelmRepoAdd Keda, HelmRepoUpdate Keda, HelmUpgradeInstall Keda,
      KubectlApplyNamespace ''argocd'', KubectlApplyArgoInstall, KubectlWaitArgoServer,
      KubectlApplyNamespace ''contract-analyzer'', KubectlApplyApp, Sleep]"

definition all_succeed :: "world \<Rightarrow> bool" where
  "all_succeed w =
     (list_all (installed w) required_tools
      \<and> list_all (\<lambda>x. outcome_of w x = Succeeds) script_commands
      \<and> available_within (helm_wait_limit w) w IngressNginx
      \<and> available_within (helm_wait_limit w) w Keda
      \<and> available_within 300 w ArgoCD
      \<and> app_yaml w)"

text \<open>What the first read of the admin secret prints.\<close>

definition first_secret_output :: "world \<Rightarrow> string" where
  "first_secret_output w = (case secret_data w 1 of None \<Rightarrow> [] | Some d \<Rightarrow> d)"

text \<open>The state in which \<^verbatim>\<open>main\<close> starts: booted, with the trap registered.\<close>

definition armed :: "world \<Rightarrow> world" where
  "armed w = (boot w)\<lparr>trap_exit := Some CleanupHandler\<rparr>"

text \<open>What \<^verbatim>\<open>cleanup\<close> adds to the trace.\<close>

definition cleanup_events :: "world \<Rightarrow> event list" where
  "cleanup_events w =
     (case pidfile w of
        None \<Rightarrow> []
      | Some p \<Rightarrow>
          if p = 0 \<or> p = shell_pid w then [Kill p]
          else if p \<in> alive w then [Kill p, RemovePid] else [])"

text \<open>The line of the report that shows the credential.\<close>

fun is_password_line :: "event \<Rightarrow> bool" where
  "is_password_line (Echo m) = starts_with ''  ArgoCD Password: '' m"
| "is_password_line e = False"

definition password_line :: "string \<Rightarrow> event" where
  "password_line p = Echo (''  ArgoCD Password: '' @ p)"

text \<open>The trace without what the script prints.\<close>

fun is_output :: "event \<Rightarrow> bool" where
  "is_output (LogLine l m) = True"
| "is_output (Echo m) = True"
| "is_output e = False"

definition actions :: "event list \<Rightarrow> event list" where
  "actions tr = filter (\<lambda>e. \<not> is_output e) tr"

subsection \<open>Notions used in the proofs\<close>

text \<open>
  \<open>extends_with A w w'\<close>: the trace of \<open>w'\<close> is that of \<open>w\<close> followed by events that all
  satisfy \<open>A\<close>. \<open>adds A c\<close>: the command \<open>c\<close> only ever adds such events. \<open>keeps f c\<close>: the
  command \<open>c\<close> never changes the part \<open>f\<close> of the world.
\<close>

definition extends_with :: "(event \<Rightarrow> bool) \<Rightarrow> world \<Rightarrow> world \<Rightarrow> bool" where
  "extends_with A w w' \<longleftrightarrow> (\<exists>evs. trace w' = trace w @ evs \<and> list_all A evs)"

definition adds :: "(event \<Rightarrow> bool) \<Rightarrow> command \<Rightarrow> bool" where
  "adds A c \<longleftrightarrow> (\<forall>w. extends_with A w (snd (c w)))"

definition keeps :: "(world \<Rightarrow> 'a) \<Rightarrow> command \<Rightarrow> bool" where
  "keeps f c \<longleftrightarrow> (\<forall>w. f (snd (c w)) = f w)"

text \<open>What no command of the script changes; the process side; the credential side.\<close>

definition fixed ::
  "world \<Rightarrow> (string \<Rightarrow> bool) \<times> (ext \<Rightarrow> outcome) \<times> (component \<Rightarrow> nat option) \<times> nat
            \<times> (nat \<Rightarrow> string option) \<times> (string \<Rightarrow> string option) \<times> bool
            \<times> handler option" where
  "fixed w = (installed w, outcome_of w, ready_after w, helm_wait_limit w, secret_data w,
              base64_decode w, app_yaml w, trap_exit w)"

definition procs :: "world \<Rightarrow> nat option \<times> nat set \<times> nat \<times> nat" where
  "procs w = (pidfile w, alive w, last_pid w, shell_pid w)"

definition creds :: "world \<Rightarrow> string \<times> nat" where
  "creds w = (ARGOCD_PASSWORD w, secret_reads w)"

text \<open>A function of the script that has no \<^verbatim>\<open>return\<close>.\<close>

definition never_returns :: "command \<Rightarrow> bool" where
  "never_returns c \<longleftrightarrow> (\<forall>w n. fst (c w) \<noteq> Returned n)"

text \<open>The functions that \<^verbatim>\<open>main\<close> calls.\<close>

definition stage_origins :: "origin list" where
  "stage_origins = [CheckPrerequisites, CreateCluster, InstallIngressNginx, InstallKeda,
                    InstallArgocd, DeployApplication, DisplayInfo]"

section \<open>The environment validator \<^verbatim>\<open>config/env.validation.ts\<close>\<close>

text \<open>
  \<^verbatim>\<open>validateEnvironment\<close> hands the input to \<^verbatim>\<open>plainToClass\<close> of
  class-transformer and the result to \<^verbatim>\<open>validateSync\<close> of class-validator. Both
  are libraries; they are modelled by what they do for the options that
  \<^verbatim>\<open>validateEnvironment\<close> passes. JavaScript values are restricted to the primitive
  ones. A number is a double: \<^verbatim>\<open>NaN\<close>, an infinity with its sign, or a finite
  value \<open>m * 2 ^ e\<close> given by \<open>m\<close> and \<open>e\<close>. No arithmetic on numbers is modelled: how
  JavaScript reads a number from a string and how it prints one are parameters.
\<close>

datatype number = NaN | Infinity bool | Finite int int

datatype jsval = Undefined | Null | Bool bool | Num number | Str string

record js_runtime =
  number_of_string :: "string \<Rightarrow> number"
  parseInt_of_string :: "string \<Rightarrow> number"
  string_of_number :: "number \<Rightarrow> string"

text \<open>An object: its own enumerable properties, in the order of \<^verbatim>\<open>Object.keys\<close>.\<close>

type_synonym obj = "(string \<times> jsval) list"

fun get_prop :: "obj \<Rightarrow> string \<Rightarrow> jsval" where
  "get_prop [] k = Undefined"
| "get_prop ((k', v) # r) k = (if k = k' then v else get_prop r k)"

fun set_prop :: "string \<Rightarrow> jsval \<Rightarrow> obj \<Rightarrow> obj" where
  "set_prop k v [] = [(k, v)]"
| "set_prop k v ((k', v') # r) = (if k = k' then (k, v) # r else (k', v') # set_prop k v r)"

subsection \<open>Conversions of JavaScript\<close>

text \<open>\<^verbatim>\<open>String(value)\<close>, \<^verbatim>\<open>Number(value)\<close>, \<^verbatim>\<open>Boolean(value)\<close>.\<close>

fun ToString :: "js_runtime \<Rightarrow> jsval \<Rightarrow> string" where
  "ToString js (Str s) = s"
| "ToString js (Num n) = string_of_number js n"
| "ToString js (Bool b) = (if b then ''true'' else ''false'')"
| "ToString js Null = ''null''"
| "ToString js Undefined = ''undefined''"

definition String_js :: "js_runtime \<Rightarrow> jsval \<Rightarrow> jsval" where
  "String_js js v = Str (ToString js v)"

fun Number_js :: "js_runtime \<Rightarrow> jsval \<Rightarrow> jsval" where
  "Number_js js (Str s) = Num (number_of_string js s)"
| "Number_js js (Num n) = Num n"
| "Number_js js (Bool b) = Num (Finite (if b then 1 else 0) 0)"
| "Number_js js Null = Num (Finite 0 0)"
| "Number_js js Undefined = Num NaN"

fun Boolean_js :: "jsval \<Rightarrow> jsval" where
  "Boolean_js (Bool b) = Bool b"
| "Boolean_js (Str s) = Bool (s \<noteq> [])"
| "Boolean_js (Num NaN) = Bool False"
| "Boolean_js (Num (Infinity negative)) = Bool True"
| "Boolean_js (Num (Finite m e)) = Bool (m \<noteq> 0)"
| "Boolean_js Null = Bool False"
| "Boolean_js Undefined = Bool False"

text \<open>\<^verbatim>\<open>parseInt(value, 10)\<close> reads its number from the string of the value.\<close>

definition parseInt10 :: "js_runtime \<Rightarrow> jsval \<Rightarrow> jsval" where
  "parseInt10 js v = Num (parseInt_of_string js (ToString js v))"

subsection \<open>Schema classes: decorated properties\<close>

datatype design_type = TString | TNumber | TBoolean | TObject

datatype decorator = IsEnum "string list" | IsNumber | IsString

record property =
  pname :: string
  design :: design_type
  decorators :: "decorator list"
  is_optional :: bool
  initializer :: "jsval option"
  transform :: "(js_runtime \<Rightarrow> jsval \<Rightarrow> jsval) option"

type_synonym schema = "property list"

text \<open>The enums of lines 8-25, as their values.\<close>

definition Environment :: "string list" where
  "Environment = [''development'', ''staging'', ''production'', ''test'']"

definition LogLevel :: "string list" where
  "LogLevel = [''fatal'', ''error'', ''warn'', ''info'', ''debug'', ''trace'']"

text \<open>\<^verbatim>\<open>class BaseEnvironmentConfig\<close>, lines 30-51.\<close>

definition BaseEnvironmentConfig :: schema where
  "BaseEnvironmentConfig =
     [\<lparr>pname = ''NODE_ENV'', design = TString, decorators = [IsEnum Environment],
       is_optional = True, initializer = Some (Str ''development''), transform = None\<rparr>,
      \<lparr>pname = ''PORT'', design = TNumber, decorators = [IsNumber],
       is_optional = True, initializer = Some (Num (Finite 3000 0)), transform = Some parseInt10\<rparr>,
      \<lparr>pname = ''LOG_LEVEL'', design = TString, decorators = [IsEnum LogLevel],
       is_optional = True, initializer = Some (Str ''info''), transform = None\<rparr>,
      \<lparr>pname = ''SERVICE_NAME'', design = TString, decorators = [IsString],
       is_optional = True, initializer = None, transform = None\<rparr>,
      \<lparr>pname = ''SERVICE_VERSION'', design = TString, decorators = [IsString],
       is_optional = True, initializer = None, transform = None\<rparr>]"

subsection \<open>\<^verbatim>\<open>plainToClass\<close> of class-transformer\<close>

record transform_options =
  enableImplicitConversion :: bool

text \<open>\<^verbatim>\<open>new config()\<close>: the properties that have an initializer.\<close>

definition new_instance :: "schema \<Rightarrow> obj" where
  "new_instance config =
     concat (map (\<lambda>p. case initializer p of None \<Rightarrow> [] | Some v \<Rightarrow> [(pname p, v)]) config)"

definition implicit_conversion :: "js_runtime \<Rightarrow> design_type \<Rightarrow> jsval \<Rightarrow> jsval" where
  "implicit_conversion js t v =
     (if v = Undefined \<or> v = Null then v
      else case t of
             TString \<Rightarrow> String_js js v
           | TNumber \<Rightarrow> Number_js js v
           | TBoolean \<Rightarrow> Boolean_js v
           | TObject \<Rightarrow> v)"

text \<open>
  The value stored for key \<open>k\<close>: converted to the declared type when implicit conversion
  is on, then passed through the property's \<^verbatim>\<open>@Transform\<close> function. A key that
  the class does not declare is copied as it is.
\<close>

definition transformed_value ::
  "js_runtime \<Rightarrow> schema \<Rightarrow> transform_options \<Rightarrow> string \<Rightarrow> jsval \<Rightarrow> jsval" where
  "transformed_value js config opts k v =
     (case find (\<lambda>p. pname p = k) config of
        None \<Rightarrow> v
      | Some p \<Rightarrow>
          (let v1 = (if enableImplicitConversion opts
                     then implicit_conversion js (design p) v else v)
           in case transform p of None \<Rightarrow> v1 | Some f \<Rightarrow> f js v1))"

text \<open>
  The keys of the input that \<^verbatim>\<open>plainToClass\<close> passes over without copying them:
  \<^verbatim>\<open>__proto__\<close> and \<^verbatim>\<open>constructor\<close>, and every key under which the new
  instance already holds a function. The schema classes of the file declare data
  properties only, so those functions are the methods that every object inherits from
  \<^verbatim>\<open>Object.prototype\<close>.
\<close>

definition Object_prototype_methods :: "string list" where
  "Object_prototype_methods =
     [''constructor'', ''__defineGetter__'', ''__defineSetter__'', ''hasOwnProperty'',
      ''__lookupGetter__'', ''__lookupSetter__'', ''isPrototypeOf'', ''propertyIsEnumerable'',
      ''toString'', ''valueOf'', ''toLocaleString'']"

definition skipped_key :: "string \<Rightarrow> bool" where
  "skipped_key k =
     (k = ''__proto__'' \<or> k = ''constructor'' \<or> k \<in> set Object_prototype_methods)"

definition plainToClass :: "js_runtime \<Rightarrow> schema \<Rightarrow> obj \<Rightarrow> transform_options \<Rightarrow> obj" where
  "plainToClass js config plain opts =
     foldl (\<lambda>inst kv.
              if skipped_key (fst kv) then inst
              else set_prop (fst kv) (transformed_value js config opts (fst kv) (snd kv)) inst)
       (new_instance config) plain"

subsection \<open>\<^verbatim>\<open>validateSync\<close> of class-validator\<close>

record validator_options =
  skipMissingProperties :: bool
  whitelist :: bool
  forbidNonWhitelisted :: bool

record ValidationError =
  property :: string
  constraints :: "(string \<times> string) list option"

fun join :: "string \<Rightarrow> string list \<Rightarrow> string" where
  "join sep [] = []"
| "join sep [x] = x"
| "join sep (x # y # r) = x @ sep @ join sep (y # r)"

fun satisfies :: "decorator \<Rightarrow> jsval \<Rightarrow> bool" where
  "satisfies (IsEnum vs) v = (case v of Str s \<Rightarrow> s \<in> set vs | _ \<Rightarrow> False)"
| "satisfies IsNumber v = (case v of Num (Finite m e) \<Rightarrow> True | _ \<Rightarrow> False)"
| "satisfies IsString v = (case v of Str s \<Rightarrow> True | _ \<Rightarrow> False)"

fun constraint_entry :: "string \<Rightarrow> decorator \<Rightarrow> string \<times> string" where
  "constraint_entry p (IsEnum vs) =
     (''isEnum'', p @ '' must be one of the following values: '' @ join '', '' vs)"
| "constraint_entry p IsNumber =
     (''isNumber'', p @ '' must be a number conforming to the specified constraints'')"
| "constraint_entry p IsString = (''isString'', p @ '' must be a string'')"

definition has_metadata :: "schema \<Rightarrow> string \<Rightarrow> bool" where
  "has_metadata config k = list_ex (\<lambda>p. pname p = k) config"

text \<open>
  The whitelist pass: the own properties of the object that no decorator of the class
  mentions. With \<^verbatim>\<open>forbidNonWhitelisted\<close> each of them is an error; with
  \<^verbatim>\<open>whitelist\<close> alone they are deleted from the object.
\<close>

definition notAllowedProperties :: "schema \<Rightarrow> obj \<Rightarrow> string list" where
  "notAllowedProperties config object = filter (\<lambda>k. \<not> has_metadata config k) (map fst object)"

definition whitelist_error :: "string \<Rightarrow> ValidationError" where
  "whitelist_error k =
     \<lparr>property = k,
      constraints = Some [(''whitelistValidation'', ''property '' @ k @ '' should not exist'')]\<rparr>"

definition property_errors :: "validator_options \<Rightarrow> obj \<Rightarrow> property \<Rightarrow> ValidationError list" where
  "property_errors opts object p =
     (let v = get_prop object (pname p);
          missing = (v = Undefined \<or> v = Null);
          failed = filter (\<lambda>d. \<not> satisfies d v) (decorators p)
      in if missing \<and> (is_optional p \<or> skipMissingProperties opts) then []
         else if failed = [] then []
         else [\<lparr>property = pname p,
                constraints = Some (map (constraint_entry (pname p)) failed)\<rparr>])"

definition validateSync :: "schema \<Rightarrow> obj \<Rightarrow> validator_options \<Rightarrow> ValidationError list \<times> obj" where
  "validateSync config object opts =
     (let extra = (if whitelist opts then notAllowedProperties config object else []);
          forbidden = (if forbidNonWhitelisted opts then map whitelist_error extra else []);
          object' = (if forbidNonWhitelisted opts then object
                     else filter (\<lambda>kv. fst kv \<notin> set extra) object)
      in (forbidden @ concat (map (property_errors opts object') config), object'))"

subsection \<open>\<^verbatim>\<open>validateEnvironment\<close> (lines 164-192)\<close>

datatype js_error = Error string

definition validateEnvironment :: "js_runtime \<Rightarrow> schema \<Rightarrow> obj \<Rightarrow> js_error + obj" where
  "validateEnvironment js config envVars =
     (let validatedConfig0 = plainToClass js config envVars \<lparr>enableImplicitConversion = True\<rparr>;
          (errors, validatedConfig) =
             validateSync config validatedConfig0
               \<lparr>skipMissingProperties = False, whitelist = True, forbidNonWhitelisted = True\<rparr>
      in if length errors > 0
         then
           (let errorMessages =
                  join ''; ''
                    (map (\<lambda>error.
                            case constraints error of
                              Some cs \<Rightarrow> join '', '' (map snd cs)
                            | None \<Rightarrow> ''Invalid value for '' @ property error)
                       errors)
            in Inl (Error (''Environment validation failed: '' @ errorMessages)))
         else Inr validatedConfig)"

section \<open>Concrete worlds and inputs\<close>

text \<open>
  What \<^verbatim>\<open>base64 -d\<close> of GNU coreutils answers on the inputs that occur in the runs
  below: the encoding of \<^verbatim>\<open>pass\<close>, and the empty input.
\<close>

definition base64_answers :: "string \<Rightarrow> string option" where
  "base64_answers s =
     (if s = ''cGFzcw=='' then Some ''pass'' else if s = [] then Some [] else None)"

text \<open>
  A host on which every tool is installed, every external command succeeds, every
  component is available 10 time units after its install, and the admin secret (the
  encoding of \<^verbatim>\<open>pass\<close>) exists from the first read on.
\<close>

definition fresh_host :: world where
  "fresh_host =
     \<lparr>installed = (\<lambda>t. True), clusters = [], clock = 5,
      outcome_of = (\<lambda>x. Succeeds), ready_after = (\<lambda>c. Some 10), helm_wait_limit = 300,
      secret_data = (\<lambda>n. Some ''cGFzcw==''), secret_reads = 0,
      base64_decode = base64_answers, app_yaml = True,
      pidfile = None, alive = {}, own_group = {}, shell_pid = 90, last_pid = 99,
      ARGOCD_PASSWORD = [],
      trap_exit = None, trace = []\<rparr>"

text \<open>The handle file names process 4242, which is no longer running.\<close>

definition stale_handle :: world where
  "stale_handle = fresh_host\<lparr>pidfile := Some 4242\<rparr>"

text \<open>The handle file names process 4242, which is running.\<close>

definition live_handle :: world where
  "live_handle = fresh_host\<lparr>pidfile := Some 4242, alive := {4242}\<rparr>"

text \<open>
  The handle file holds 0, and process 7 is a running process of the shell's own process
  group.
\<close>

definition zero_handle :: world where
  "zero_handle = fresh_host\<lparr>pidfile := Some 0, alive := {7}, own_group := {7}\<rparr>"

text \<open>The application descriptor \<^verbatim>\<open>deploy/argocd/app.yaml\<close> is missing.\<close>

definition no_descriptor :: world where
  "no_descriptor = fresh_host\<lparr>app_yaml := False\<rparr>"

text \<open>A termination signal arrives during \<^verbatim>\<open>sleep 30\<close>.\<close>

definition interrupted_sync :: world where
  "interrupted_sync = fresh_host\<lparr>outcome_of := (\<lambda>x. if x = Sleep then Interrupted else Succeeds)\<rparr>"

text \<open>kubectl is not on the path.\<close>

definition no_kubectl :: world where
  "no_kubectl = fresh_host\<lparr>installed := (\<lambda>t. t \<noteq> ''kubectl'')\<rparr>"

text \<open>A cluster named \<^verbatim>\<open>ca-dev\<close> and another one exist already.\<close>

definition existing_cluster :: world where
  "existing_cluster = fresh_host\<lparr>clusters := [(''ca-dev'', 1), (''other'', 2)]\<rparr>"

text \<open>
  A component that never reports available; and an ingress controller that is
  available after 500 time units where helm waits up to 1000.
\<close>

definition argocd_never_ready :: world where
  "argocd_never_ready = fresh_host\<lparr>ready_after := (\<lambda>c. if c = ArgoCD then None else Some 10)\<rparr>"

definition ingress_never_ready :: world where
  "ingress_never_ready =
     fresh_host\<lparr>ready_after := (\<lambda>c. if c = IngressNginx then None else Some 10)\<rparr>"

definition keda_never_ready :: world where
  "keda_never_ready = fresh_host\<lparr>ready_after := (\<lambda>c. if c = Keda then None else Some 10)\<rparr>"

definition slow_ingress :: world where
  "slow_ingress =
     fresh_host\<lparr>helm_wait_limit := 1000,
                ready_after := (\<lambda>c. if c = IngressNginx then Some 500 else Some 10)\<rparr>"

text \<open>The admin secret exists only from the third read on.\<close>

definition late_secret :: world where
  "late_secret =
     fresh_host\<lparr>secret_data := (\<lambda>n. if 3 \<le> n then Some ''cGFzcw=='' else None)\<rparr>"

section \<open>Sequencing and traces\<close>

declare commands.simps [simp del]

lemmas prim_defs = emit_def log_info_def log_success_def log_warning_def log_error_def
  echo_def exit_sh_def return_sh_def run_ext_def sleep_def
  k3d_cluster_delete_def k3d_cluster_create_def helm_upgrade_install_wait_def
  kubectl_wait_available_def kubectl_get_secret_def read_admin_password_def
  spawn_port_forward_def write_pidfile_def start_port_forward_def kill_0_def kill_pid_def
  rm_f_pidfile_def

lemma snd_call: "snd (call f w) = snd (f w)"
  by (simp add: call_def split: prod.split status.split)

lemma commands_stop: "fst (c w) \<noteq> Continue \<Longrightarrow> commands (c # cs) w = c w"
  by (cases "c w") (simp add: commands.simps split: status.split)

lemma commands_go: "fst (c w) = Continue \<Longrightarrow> commands (c # cs) w = commands cs (snd (c w))"
  by (cases "c w") (simp add: commands.simps)

lemma commands_Nil [simp]: "commands [] w = (Continue, w)"
  by (simp add: commands.simps)

lemma commands_append_stop:
  "fst (commands xs w) \<noteq> Continue \<Longrightarrow> commands (xs @ ys) w = commands xs w"
proof (induction xs arbitrary: w)
  case Nil
  then show ?case by simp
next
  case (Cons c xs)
  show ?case
  proof (cases "fst (c w) = Continue")
    case True
    with Cons show ?thesis by (simp add: commands_go)
  next
    case False
    then show ?thesis by (simp add: commands_stop)
  qed
qed

lemma commands_append_go:
  "fst (commands xs w) = Continue \<Longrightarrow> commands (xs @ ys) w = commands ys (snd (commands xs w))"
proof (induction xs arbitrary: w)
  case Nil
  then show ?case by simp
next
  case (Cons c xs)
  show ?case
  proof (cases "fst (c w) = Continue")
    case True
    with Cons show ?thesis by (simp add: commands_go)
  next
    case False
    with Cons.prems show ?thesis by (simp add: commands_stop)
  qed
qed

lemma commands_inv:
  "I w \<Longrightarrow> (\<And>c v. c \<in> set cs \<Longrightarrow> I v \<Longrightarrow> I (snd (c v))) \<Longrightarrow> I (snd (commands cs w))"
proof (induction cs arbitrary: w)
  case Nil
  then show ?case by simp
next
  case (Cons c cs)
  have step: "I (snd (c w))"
    using Cons.prems by simp
  show ?case
  proof (cases "fst (c w) = Continue")
    case True
    have "I (snd (commands cs (snd (c w))))"
      by (rule Cons.IH [OF step]) (simp add: Cons.prems(2))
    with True show ?thesis by (simp add: commands_go)
  next
    case False
    with step show ?thesis by (simp add: commands_stop)
  qed
qed

lemma extends_with_refl: "extends_with A w w"
  by (simp add: extends_with_def)

lemma extends_with_trans:
  "extends_with A w w' \<Longrightarrow> extends_with A w' w'' \<Longrightarrow> extends_with A w w''"
  by (auto simp: extends_with_def)

lemma extends_with_mono:
  "extends_with A w w' \<Longrightarrow> (\<And>e. A e \<Longrightarrow> B e) \<Longrightarrow> extends_with B w w'"
  by (auto simp: extends_with_def list_all_iff)

lemma adds_mono: "adds A c \<Longrightarrow> (\<And>e. A e \<Longrightarrow> B e) \<Longrightarrow> adds B c"
  unfolding adds_def by (blast intro: extends_with_mono)

lemma adds_call: "adds A f \<Longrightarrow> adds A (call f)"
  by (simp add: adds_def snd_call)

lemma keeps_call: "keeps g f \<Longrightarrow> keeps g (call f)"
  by (simp add: keeps_def snd_call)

lemma adds_commands: "list_all (adds A) cs \<Longrightarrow> adds A (commands cs)"
  unfolding adds_def
proof
  fix w
  assume a: "list_all (\<lambda>c. \<forall>w. extends_with A w (snd (c w))) cs"
  show "extends_with A w (snd (commands cs w))"
    by (rule commands_inv [where I = "extends_with A w"])
       (use a in \<open>auto simp: extends_with_refl list_all_iff intro: extends_with_trans\<close>)
qed

lemma keeps_commands: "list_all (keeps g) cs \<Longrightarrow> keeps g (commands cs)"
  unfolding keeps_def
proof
  fix w
  assume a: "list_all (\<lambda>c. \<forall>w. g (snd (c w)) = g w) cs"
  show "g (snd (commands cs w)) = g w"
    by (rule commands_inv [where I = "\<lambda>v. g v = g w"]) (use a in \<open>auto simp: list_all_iff\<close>)
qed

lemma adds_if:
  "adds A c \<Longrightarrow> adds A (if_then b c)"
  "adds A c \<Longrightarrow> adds A d \<Longrightarrow> adds A (if_then_else b c d)"
  by (simp_all add: adds_def if_then_def if_then_else_def extends_with_refl)

lemma keeps_if:
  "keeps h c \<Longrightarrow> keeps h (if_then b c)"
  "keeps h c \<Longrightarrow> keeps h d \<Longrightarrow> keeps h (if_then_else b c d)"
  by (simp_all add: keeps_def if_then_def if_then_else_def)

lemma adds_expand: "(\<And>x. adds A (c x)) \<Longrightarrow> adds A (expand v c)"
  by (simp add: adds_def expand_def)

lemma keeps_expand: "(\<And>x. keeps h (c x)) \<Longrightarrow> keeps h (expand v c)"
  by (simp add: keeps_def expand_def)

subsection \<open>What each command adds to the trace\<close>

lemma adds_log:
  "A (LogLine INFO m) \<Longrightarrow> adds A (log_info m)"
  "A (LogLine SUCCESS m) \<Longrightarrow> adds A (log_success m)"
  "A (LogLine WARNING m) \<Longrightarrow> adds A (log_warning m)"
  "A (LogLine ERROR m) \<Longrightarrow> adds A (log_error m)"
  "A (Echo m) \<Longrightarrow> adds A (echo m)"
  by (simp_all add: adds_def extends_with_def prim_defs)

lemma adds_exit: "adds A (exit_sh n)" "adds A (return_sh n)"
  by (simp_all add: adds_def extends_with_def prim_defs)

lemma adds_run_ext: "A (Run x) \<Longrightarrow> adds A (run_ext x)"
  by (simp add: adds_def extends_with_def prim_defs split: outcome.split)

lemma adds_sleep: "A (Run Sleep) \<Longrightarrow> adds A (sleep n)"
  by (simp add: adds_def extends_with_def prim_defs split: outcome.split)

lemma adds_k3d:
  "A (Run K3dClusterDelete) \<Longrightarrow> adds A (k3d_cluster_delete name)"
  "A (Run K3dClusterCreate) \<Longrightarrow> adds A (k3d_cluster_create name)"
  by (simp_all add: adds_def extends_with_def prim_defs split: outcome.split)

lemma adds_helm: "A (Run (HelmUpgradeInstall c)) \<Longrightarrow> adds A (helm_upgrade_install_wait c)"
  by (simp add: adds_def extends_with_def prim_defs split: outcome.split option.split)

lemma adds_kubectl_wait: "A (Run KubectlWaitArgoServer) \<Longrightarrow> adds A (kubectl_wait_available n c)"
  by (simp add: adds_def extends_with_def prim_defs split: outcome.split option.split)

lemma adds_read_admin_password:
  "A ReadSecret \<Longrightarrow> (\<And>m. A (Stderr m)) \<Longrightarrow> adds A read_admin_password"
  by (simp add: adds_def extends_with_def prim_defs Let_def split: option.split)

lemma adds_start_port_forward:
  "(\<And>p. A (Spawn p)) \<Longrightarrow> (\<And>p. A (WritePid p)) \<Longrightarrow> adds A start_port_forward"
  by (simp add: adds_def extends_with_def prim_defs)

lemmas adds_prims = adds_log adds_exit adds_run_ext adds_sleep adds_k3d adds_helm
  adds_kubectl_wait adds_read_admin_password adds_start_port_forward adds_if adds_expand
  adds_commands adds_call

lemma from_only_simps [simp]:
  "from_only os (LogLine l m)"
  "from_only os (Echo m) \<longleftrightarrow> DisplayInfo \<in> set os"
  "from_only os (Run x) \<longleftrightarrow> ext_origin x \<in> set os"
  "from_only os ReadSecret \<longleftrightarrow> InstallArgocd \<in> set os"
  "from_only os (Stderr m) \<longleftrightarrow> InstallArgocd \<in> set os"
  "from_only os (Spawn p) \<longleftrightarrow> InstallArgocd \<in> set os"
  "from_only os (WritePid p) \<longleftrightarrow> InstallArgocd \<in> set os"
  "from_only os (Kill p) \<longleftrightarrow> Cleanup \<in> set os"
  "from_only os RemovePid \<longleftrightarrow> Cleanup \<in> set os"
  "from_only os (RunTrap h) \<longleftrightarrow> Shell \<in> set os"
  "from_only os (ProcessExit st) \<longleftrightarrow> Shell \<in> set os"
  by (simp_all add: from_only_def)

lemma from_only_mono: "set os \<subseteq> set os' \<Longrightarrow> from_only os e \<Longrightarrow> from_only os' e"
  by (auto simp: from_only_def split: option.splits)

lemma adds_check_prerequisites: "adds (from_only [CheckPrerequisites]) check_prerequisites"
  unfolding check_prerequisites_def by (simp add: adds_prims)

lemma adds_create_cluster: "adds (from_only [CreateCluster]) create_cluster"
  unfolding create_cluster_def by (simp add: adds_prims)

lemma adds_install_ingress_nginx: "adds (from_only [InstallIngressNginx]) install_ingress_nginx"
  unfolding install_ingress_nginx_def by (simp add: adds_prims)

lemma adds_install_keda: "adds (from_only [InstallKeda]) install_keda"
  unfolding install_keda_def by (simp add: adds_prims)

lemma adds_install_argocd: "adds (from_only [InstallArgocd]) install_argocd"
  unfolding install_argocd_def by (simp add: adds_prims)

lemma adds_deploy_application: "adds (from_only [DeployApplication]) deploy_application"
  unfolding deploy_application_def by (simp add: adds_prims)

lemma adds_display_info: "adds (from_only [DisplayInfo]) display_info"
  unfolding display_info_def by (simp add: adds_prims)

subsection \<open>What each command leaves alone\<close>

lemma keeps_fixed_prims:
  "keeps fixed (log_info m)" "keeps fixed (log_success m)" "keeps fixed (log_warning m)"
  "keeps fixed (log_error m)" "keeps fixed (echo m)" "keeps fixed (exit_sh n)"
  "keeps fixed (return_sh n)" "keeps fixed (run_ext x)" "keeps fixed (sleep n)"
  "keeps fixed (k3d_cluster_delete name)" "keeps fixed (k3d_cluster_create name)"
  "keeps fixed (helm_upgrade_install_wait c)" "keeps fixed (kubectl_wait_available n c)"
  "keeps fixed read_admin_password" "keeps fixed start_port_forward"
  "keeps fixed (kill_pid p)" "keeps fixed rm_f_pidfile"
  by (simp_all add: keeps_def fixed_def prim_defs Let_def split: outcome.split option.split)

lemma keeps_procs_prims:
  "keeps procs (log_info m)" "keeps procs (log_success m)" "keeps procs (log_warning m)"
  "keeps procs (log_error m)" "keeps procs (echo m)" "keeps procs (exit_sh n)"
  "keeps procs (return_sh n)" "keeps procs (run_ext x)" "keeps procs (sleep n)"
  "keeps procs (k3d_cluster_delete name)" "keeps procs (k3d_cluster_create name)"
  "keeps procs (helm_upgrade_install_wait c)" "keeps procs (kubectl_wait_available n c)"
  "keeps procs read_admin_password"
  by (simp_all add: keeps_def procs_def prim_defs Let_def split: outcome.split option.split)

lemma keeps_creds_prims:
  "keeps creds (log_info m)" "keeps creds (log_success m)" "keeps creds (log_warning m)"
  "keeps creds (log_error m)" "keeps creds (echo m)" "keeps creds (exit_sh n)"
  "keeps creds (return_sh n)" "keeps creds (run_ext x)" "keeps creds (sleep n)"
  "keeps creds (k3d_cluster_delete name)" "keeps creds (k3d_cluster_create name)"
  "keeps creds (helm_upgrade_install_wait c)" "keeps creds (kubectl_wait_available n c)"
  "keeps creds start_port_forward" "keeps creds (kill_pid p)" "keeps creds rm_f_pidfile"
  by (simp_all add: keeps_def creds_def prim_defs Let_def split: outcome.split option.split)

lemmas keeps_prims = keeps_fixed_prims keeps_procs_prims keeps_creds_prims keeps_if
  keeps_expand keeps_commands keeps_call

lemma keeps_check_prerequisites:
  "keeps fixed check_prerequisites" "keeps procs check_prerequisites"
  "keeps creds check_prerequisites"
  unfolding check_prerequisites_def by (simp_all add: keeps_prims)

lemma keeps_create_cluster:
  "keeps fixed create_cluster" "keeps procs create_cluster" "keeps creds create_cluster"
  unfolding create_cluster_def by (simp_all add: keeps_prims)

lemma keeps_install_ingress_nginx:
  "keeps fixed install_ingress_nginx" "keeps procs install_ingress_nginx"
  "keeps creds install_ingress_nginx"
  unfolding install_ingress_nginx_def by (simp_all add: keeps_prims)

lemma keeps_install_keda:
  "keeps fixed install_keda" "keeps procs install_keda" "keeps creds install_keda"
  unfolding install_keda_def by (simp_all add: keeps_prims)

lemma keeps_install_argocd: "keeps fixed install_argocd"
  unfolding install_argocd_def by (simp add: keeps_prims)

lemma keeps_deploy_application:
  "keeps fixed deploy_application" "keeps procs deploy_application"
  "keeps creds deploy_application"
  unfolding deploy_application_def by (simp_all add: keeps_prims)

lemma keeps_display_info:
  "keeps fixed display_info" "keeps procs display_info" "keeps creds display_info"
  unfolding display_info_def by (simp_all add: keeps_prims)

lemmas keeps_stages = keeps_check_prerequisites keeps_create_cluster
  keeps_install_ingress_nginx keeps_install_keda keeps_install_argocd
  keeps_deploy_application keeps_display_info

lemma keeps_main: "keeps fixed main"
  unfolding main_def by (simp add: keeps_prims keeps_stages)

lemma keeps_shell_pid_prims:
  "keeps shell_pid (log_info m)" "keeps shell_pid (log_success m)"
  "keeps shell_pid (log_warning m)" "keeps shell_pid (log_error m)" "keeps shell_pid (echo m)"
  "keeps shell_pid (exit_sh n)" "keeps shell_pid (return_sh n)" "keeps shell_pid (run_ext x)"
  "keeps shell_pid (sleep n)" "keeps shell_pid (k3d_cluster_delete name)"
  "keeps shell_pid (k3d_cluster_create name)" "keeps shell_pid (helm_upgrade_install_wait c)"
  "keeps shell_pid (kubectl_wait_available n c)" "keeps shell_pid read_admin_password"
  "keeps shell_pid start_port_forward"
  by (simp_all add: keeps_def prim_defs Let_def split: outcome.split option.split)

lemma keeps_main_shell: "keeps shell_pid main"
  unfolding main_def check_prerequisites_def create_cluster_def install_ingress_nginx_def
    install_keda_def install_argocd_def deploy_application_def display_info_def
  by (simp add: keeps_shell_pid_prims keeps_if keeps_expand keeps_commands keeps_call)

lemma keepsD: "keeps f c \<Longrightarrow> f (snd (c w)) = f w"
  by (simp add: keeps_def)

lemma addsD: "adds A c \<Longrightarrow> \<exists>evs. trace (snd (c w)) = trace w @ evs \<and> list_all A evs"
  by (simp add: adds_def extends_with_def)

subsection \<open>The script as a whole\<close>

lemma adds_from_only_mono:
  "adds (from_only os) c \<Longrightarrow> set os \<subseteq> set os' \<Longrightarrow> adds (from_only os') c"
  by (erule adds_mono) (rule from_only_mono)

lemma adds_stages:
  "adds (from_only stage_origins) check_prerequisites"
  "adds (from_only stage_origins) create_cluster"
  "adds (from_only stage_origins) install_ingress_nginx"
  "adds (from_only stage_origins) install_keda"
  "adds (from_only stage_origins) install_argocd"
  "adds (from_only stage_origins) deploy_application"
  "adds (from_only stage_origins) display_info"
  by (rule adds_from_only_mono, rule adds_check_prerequisites adds_create_cluster
        adds_install_ingress_nginx adds_install_keda adds_install_argocd
        adds_deploy_application adds_display_info, simp add: stage_origins_def)+

lemma adds_main: "adds (from_only stage_origins) main"
  unfolding main_def by (simp add: adds_prims adds_stages)

lemma commands_single: "commands [c] w = c w"
  by (cases "c w") (simp add: commands.simps split: status.split)

lemma fixed_armed [simp]:
  "trap_exit (armed w) = Some CleanupHandler" "trace (armed w) = []"
  "secret_reads (armed w) = 0" "installed (armed w) = installed w"
  "outcome_of (armed w) = outcome_of w" "ready_after (armed w) = ready_after w"
  "helm_wait_limit (armed w) = helm_wait_limit w" "secret_data (armed w) = secret_data w"
  "app_yaml (armed w) = app_yaml w" "pidfile (armed w) = pidfile w"
  "alive (armed w) = alive w" "next_pid (armed w) = next_pid w"
  "clusters (armed w) = clusters w" "clock (armed w) = clock w"
  "base64_decode (armed w) = base64_decode w" "shell_pid (armed w) = shell_pid w"
  "last_pid (armed w) = last_pid w"
  by (simp_all add: armed_def boot_def next_pid_def)

lemma script_eq: "script w = shell_exit (fst (call main (armed w))) (snd (main (armed w)))"
proof -
  have "commands [trap_cleanup_EXIT, call main] (boot w) = call main (armed w)"
    by (simp add: trap_cleanup_EXIT_def commands_go commands_single armed_def)
  then have "script w = shell_exit (fst (call main (armed w))) (snd (call main (armed w)))"
    by (simp add: script_def split: prod.split)
  then show ?thesis
    by (simp add: snd_call)
qed

text \<open>The three ways of \<^verbatim>\<open>cleanup\<close>, and the one for a handle file that holds 0.\<close>

lemma cleanup_eq:
  "cleanup w =
     (case pidfile w of
        None \<Rightarrow> (Continue, w)
      | Some p \<Rightarrow>
          if p = 0
          then (Killed, w\<lparr>alive := alive w - own_group w, trace := trace w @ [Kill 0]\<rparr>)
          else if p = shell_pid w
          then (Killed, w\<lparr>alive := alive w - {p}, trace := trace w @ [Kill p]\<rparr>)
          else if p \<in> alive w
          then (Continue, w\<lparr>alive := alive w - {p}, pidfile := None,
                             trace := trace w @ [Kill p, RemovePid]\<rparr>)
          else (Continue, w))"
  by (simp add: cleanup_def commands.simps kill_0_def kill_pid_def rm_f_pidfile_def emit_def
      split: option.split)

lemma cleanup_trace: "trace (snd (cleanup w)) = trace w @ cleanup_events w"
  by (simp add: cleanup_eq cleanup_events_def split: option.split)

lemma cleanup_status: "fst (cleanup w) \<noteq> Exiting n"
  by (simp add: cleanup_eq split: option.split)

lemma cleanup_keeps_password: "ARGOCD_PASSWORD (snd (cleanup w)) = ARGOCD_PASSWORD w"
  by (simp add: cleanup_eq split: option.split)

lemma shell_exit_eq:
  assumes "trap_exit w = Some CleanupHandler"
  shows "shell_exit st w =
           (st, emit (ProcessExit st)
                  (snd (cleanup (emit (RunTrap CleanupHandler) (w\<lparr>trap_exit := None\<rparr>)))))"
proof -
  define v where "v = emit (RunTrap CleanupHandler) (w\<lparr>trap_exit := None\<rparr>)"
  have "fst (cleanup v) \<noteq> Exiting n" for n
    by (rule cleanup_status)
  then show ?thesis
    using assms
    by (cases "cleanup v"; cases "fst (cleanup v)")
       (auto simp: shell_exit_def run_handler_def v_def [symmetric])
qed

lemma shell_exit_trap:
  assumes "trap_exit w = Some CleanupHandler"
  shows "fst (shell_exit st w) = st"
    and "trace (snd (shell_exit st w))
           = trace w @ RunTrap CleanupHandler # cleanup_events w @ [ProcessExit st]"
    and "ARGOCD_PASSWORD (snd (shell_exit st w)) = ARGOCD_PASSWORD w"
    and "alive (snd (shell_exit st w))
           = (case pidfile w of
                None \<Rightarrow> alive w
              | Some p \<Rightarrow> if p = 0 then alive w - own_group w else alive w - {p})"
    and "shell_pid (snd (shell_exit st w)) = shell_pid w"
proof -
  define v where "v = emit (RunTrap CleanupHandler) (w\<lparr>trap_exit := None\<rparr>)"
  have v: "trace v = trace w @ [RunTrap CleanupHandler]" "pidfile v = pidfile w"
    "alive v = alive w" "own_group v = own_group w" "ARGOCD_PASSWORD v = ARGOCD_PASSWORD w"
    "shell_pid v = shell_pid w" "cleanup_events v = cleanup_events w"
    by (simp_all add: v_def emit_def cleanup_events_def split: option.split)
  have eq: "shell_exit st w = (st, emit (ProcessExit st) (snd (cleanup v)))"
    unfolding v_def using assms by (rule shell_exit_eq)
  show "fst (shell_exit st w) = st"
    by (simp add: eq)
  show "trace (snd (shell_exit st w))
          = trace w @ RunTrap CleanupHandler # cleanup_events w @ [ProcessExit st]"
    by (simp add: eq emit_def cleanup_trace v)
  show "ARGOCD_PASSWORD (snd (shell_exit st w)) = ARGOCD_PASSWORD w"
    by (simp add: eq emit_def cleanup_keeps_password v)
  show "alive (snd (shell_exit st w))
          = (case pidfile w of
               None \<Rightarrow> alive w
             | Some p \<Rightarrow> if p = 0 then alive w - own_group w else alive w - {p})"
    by (simp add: eq emit_def cleanup_eq v split: option.split)
  show "shell_pid (snd (shell_exit st w)) = shell_pid w"
    by (simp add: eq emit_def cleanup_eq v split: option.split)
qed

lemma trap_exit_main: "trap_exit (snd (main (armed w))) = Some CleanupHandler"
  using keepsD [OF keeps_main, of "armed w"] by (simp add: fixed_def)

lemma script_status: "fst (script w) = fst (call main (armed w))"
  by (simp add: script_eq shell_exit_trap(1) [OF trap_exit_main])

lemma script_trace:
  "trace (snd (script w))
     = trace (snd (main (armed w)))
       @ RunTrap CleanupHandler # cleanup_events (snd (main (armed w)))
       @ [ProcessExit (fst (call main (armed w)))]"
  by (simp add: script_eq shell_exit_trap(2) [OF trap_exit_main])

lemma main_events: "list_all (from_only stage_origins) (trace (snd (main (armed w))))"
  using addsD [OF adds_main, of "armed w"] by auto

subsection \<open>Functions without \<^verbatim>\<open>return\<close>\<close>

lemma never_returns_call: "never_returns (call f)"
  by (simp add: never_returns_def call_def split: prod.split status.split)

lemma call_id:
  assumes "never_returns f"
  shows "call f w = f w"
proof -
  from assms have "\<forall>n. fst (f w) \<noteq> Returned n"
    by (simp add: never_returns_def)
  then show ?thesis
    by (cases "f w") (auto simp: call_def split: status.split)
qed

lemma never_returns_commands: "list_all never_returns cs \<Longrightarrow> never_returns (commands cs)"
proof (induction cs)
  case Nil
  then show ?case by (simp add: never_returns_def)
next
  case (Cons c cs)
  then have c: "never_returns c" and cs: "never_returns (commands cs)" by simp_all
  show ?case
    unfolding never_returns_def
  proof (intro allI)
    fix w n
    show "fst (commands (c # cs) w) \<noteq> Returned n"
    proof (cases "fst (c w) = Continue")
      case True
      with cs show ?thesis by (simp add: commands_go never_returns_def)
    next
      case False
      with c show ?thesis by (simp add: commands_stop never_returns_def)
    qed
  qed
qed

lemma never_returns_prims:
  "never_returns (log_info m)" "never_returns (log_success m)" "never_returns (log_warning m)"
  "never_returns (log_error m)" "never_returns (echo m)" "never_returns (exit_sh n)"
  "never_returns (run_ext x)" "never_returns (sleep k)"
  "never_returns (k3d_cluster_delete name)" "never_returns (k3d_cluster_create name)"
  "never_returns (helm_upgrade_install_wait c)" "never_returns (kubectl_wait_available k c)"
  "never_returns read_admin_password" "never_returns start_port_forward"
  by (simp_all add: never_returns_def prim_defs Let_def split: outcome.split option.split)

lemma never_returns_if:
  "never_returns c \<Longrightarrow> never_returns (if_then b c)"
  "never_returns c \<Longrightarrow> never_returns d \<Longrightarrow> never_returns (if_then_else b c d)"
  by (simp_all add: never_returns_def if_then_def if_then_else_def)

lemma never_returns_expand: "(\<And>x. never_returns (c x)) \<Longrightarrow> never_returns (expand v c)"
  by (simp add: never_returns_def expand_def)

lemmas never_returns_intros = never_returns_prims never_returns_if never_returns_expand
  never_returns_commands never_returns_call

lemma never_returns_stages:
  "never_returns check_prerequisites" "never_returns create_cluster"
  "never_returns install_ingress_nginx" "never_returns install_keda"
  "never_returns install_argocd" "never_returns display_info" "never_returns main"
  unfolding check_prerequisites_def create_cluster_def install_ingress_nginx_def
    install_keda_def install_argocd_def display_info_def main_def
  by (simp_all add: never_returns_intros)

lemma script_status_main: "fst (script w) = fst (main (armed w))"
  by (simp add: script_status call_id never_returns_stages)

lemma script_trace_main:
  "trace (snd (script w))
     = trace (snd (main (armed w)))
       @ RunTrap CleanupHandler # cleanup_events (snd (main (armed w)))
       @ [ProcessExit (fst (main (armed w)))]"
  by (simp add: script_trace call_id never_returns_stages)

subsection \<open>Facts about lists of events\<close>

lemma precedes_no_Q: "list_all (\<lambda>e. \<not> Q e) xs \<Longrightarrow> precedes P Q xs"
  by (induction xs) auto

lemma precedes_skip:
  "list_all (\<lambda>e. \<not> P e \<and> \<not> Q e) xs \<Longrightarrow> precedes P Q (xs @ ys) = precedes P Q ys"
  by (induction xs) auto

lemma precedes_hit:
  "list_ex P xs \<Longrightarrow> list_all (\<lambda>e. \<not> Q e) xs \<Longrightarrow> precedes P Q (xs @ ys)"
  by (induction xs) auto

lemma precedes_append:
  "precedes P Q xs \<Longrightarrow> list_all (\<lambda>e. \<not> Q e) ys \<Longrightarrow> precedes P Q (xs @ ys)"
  by (induction xs) (auto simp: precedes_no_Q)

lemma from_stage_not_trap: "from_only stage_origins e \<Longrightarrow> \<not> is_trap e"
  by (cases e) (auto simp: stage_origins_def)

lemma from_stage_not_exit: "from_only stage_origins e \<Longrightarrow> \<not> is_exit e"
  by (cases e) (auto simp: stage_origins_def)

lemmas from_stage_cases = from_stage_not_trap from_stage_not_exit

lemma stage_events_quiet:
  assumes "list_all (from_only stage_origins) xs"
  shows "filter is_trap xs = []" and "filter is_exit xs = []"
    and "list_all (\<lambda>e. \<not> is_trap e) xs" and "list_all (\<lambda>e. \<not> is_exit e) xs"
  using assms by (auto simp: filter_empty_conv list_all_iff from_stage_cases)

lemma cleanup_events_quiet:
  "filter is_trap (cleanup_events w) = []" "filter is_exit (cleanup_events w) = []"
  "filter is_spawn (cleanup_events w) = []"
  "list_all (\<lambda>e. \<not> is_spawn e) (cleanup_events w)"
  "list_all (\<lambda>e. origin_of e = Some Cleanup) (cleanup_events w)"
  by (simp_all add: cleanup_events_def split: option.split)

lemma before_trap_script: "before_trap (trace (snd (script w))) = trace (snd (main (armed w)))"
proof -
  have "\<forall>e \<in> set (trace (snd (main (armed w)))). \<not> is_trap e"
    using stage_events_quiet(3) [OF main_events, of w] by (simp add: list_all_iff)
  then show ?thesis
    by (simp add: before_trap_def script_trace takeWhile_append2)
qed

subsection \<open>Matching strings\<close>

lemma starts_with_self: "starts_with s s"
  by (induction s) auto

lemma starts_with_prefix: "starts_with p (p @ s)"
  by (induction p) auto

subsection \<open>Concrete runs\<close>

lemmas run_defs = script_def boot_def main_def check_prerequisites_def create_cluster_def
  install_ingress_nginx_def install_keda_def install_argocd_def deploy_application_def
  display_info_def commands.simps call_def if_then_def if_then_else_def expand_def
  prim_defs grep_q_def k3d_cluster_list_def cleanup_def trap_cleanup_EXIT_def
  run_handler_def shell_exit_def CLUSTER_NAME_def ARGOCD_VERSION_def NGINX_VERSION_def
  KEDA_VERSION_def PID_FILE_def base64_answers_def command_substitution_def actions_def
  next_pid_def

lemma run_fresh_host:
  "fst (script fresh_host) = Continue"
  "actions (trace (snd (script fresh_host))) =
     [Run K3dClusterCreate, Run KubectlUseContext,
      Run (HelmRepoAdd IngressNginx), Run (HelmRepoUpdate IngressNginx),
      Run (HelmUpgradeInstall IngressNginx),
      Run (HelmRepoAdd Keda), Run (HelmRepoUpdate Keda), Run (HelmUpgradeInstall Keda),
      Run (KubectlApplyNamespace ''argocd''), Run KubectlApplyArgoInstall,
      Run KubectlWaitArgoServer, ReadSecret, Spawn 100, WritePid 100,
      Run (KubectlApplyNamespace ''contract-analyzer''), Run KubectlApplyApp, Run Sleep,
      RunTrap CleanupHandler, Kill 100, RemovePid, ProcessExit Continue]"
  by (simp_all add: fresh_host_def run_defs)

lemma run_no_descriptor:
  "fst (script no_descriptor) = Exiting 1"
  "actions (trace (snd (script no_descriptor))) =
     [Run K3dClusterCreate, Run KubectlUseContext,
      Run (HelmRepoAdd IngressNginx), Run (HelmRepoUpdate IngressNginx),
      Run (HelmUpgradeInstall IngressNginx),
      Run (HelmRepoAdd Keda), Run (HelmRepoUpdate Keda), Run (HelmUpgradeInstall Keda),
      Run (KubectlApplyNamespace ''argocd''), Run KubectlApplyArgoInstall,
      Run KubectlWaitArgoServer, ReadSecret, Spawn 100, WritePid 100,
      Run (KubectlApplyNamespace ''contract-analyzer''),
      RunTrap CleanupHandler, Kill 100, RemovePid, ProcessExit (Exiting 1)]"
  by (simp_all add: no_descriptor_def fresh_host_def run_defs)

lemma run_interrupted_sync:
  "fst (script interrupted_sync) = Killed"
  "actions (trace (snd (script interrupted_sync))) =
     [Run K3dClusterCreate, Run KubectlUseContext,
      Run (HelmRepoAdd IngressNginx), Run (HelmRepoUpdate IngressNginx),
      Run (HelmUpgradeInstall IngressNginx),
      Run (HelmRepoAdd Keda), Run (HelmRepoUpdate Keda), Run (HelmUpgradeInstall Keda),
      Run (KubectlApplyNamespace ''argocd''), Run KubectlApplyArgoInstall,
      Run KubectlWaitArgoServer, ReadSecret, Spawn 100, WritePid 100,
      Run (KubectlApplyNamespace ''contract-analyzer''), Run KubectlApplyApp, Run Sleep,
      RunTrap CleanupHandler, Kill 100, RemovePid, ProcessExit Killed]"
  by (simp_all add: interrupted_sync_def fresh_host_def run_defs)

lemma list_ex_actions: "(\<And>e. P e \<Longrightarrow> \<not> is_output e) \<Longrightarrow> list_ex P (actions tr) = list_ex P tr"
  by (auto simp: actions_def list_ex_iff)

lemma precedes_actions:
  "(\<And>e. is_output e \<Longrightarrow> \<not> P e \<and> \<not> Q e) \<Longrightarrow> precedes P Q tr = precedes P Q (actions tr)"
  by (induction tr) (auto simp: actions_def)

lemma filter_actions:
  "(\<And>e. P e \<Longrightarrow> \<not> is_output e) \<Longrightarrow> filter P (actions tr) = filter P tr"
  by (induction tr) (auto simp: actions_def)

lemma is_output_not:
  "is_output e \<Longrightarrow> \<not> is_spawn e" "is_output e \<Longrightarrow> \<not> is_trap e"
  "is_output e \<Longrightarrow> \<not> is_exit e" "is_output e \<Longrightarrow> e \<noteq> Run x"
  "is_output e \<Longrightarrow> e \<noteq> ReadSecret" "is_output e \<Longrightarrow> e \<noteq> Kill p"
  by (cases e; simp)+

lemma spawn_in_actions: "list_ex is_spawn tr \<longleftrightarrow> list_ex is_spawn (actions tr)"
  by (rule list_ex_actions [symmetric]) (auto simp: is_output_not)

section \<open>Order of the tunnel start and the application deploy\<close>

text \<open>When \<^verbatim>\<open>install_argocd\<close> completes, it has started the tunnel.\<close>

lemma install_argocd_started:
  assumes "fst (install_argocd w) = Continue"
  shows "\<exists>evs. trace (snd (install_argocd w)) = trace w @ evs
               \<and> list_all (from_only [InstallArgocd]) evs \<and> list_ex is_spawn evs"
proof -
  define xs where "xs =
     [log_info (''Installing ArgoCD '' @ ARGOCD_VERSION @ ''...''),
      run_ext (KubectlApplyNamespace ''argocd''),
      run_ext KubectlApplyArgoInstall,
      log_info ''Waiting for ArgoCD to be ready...'',
      kubectl_wait_available 300 ArgoCD,
      read_admin_password,
      log_success ''ArgoCD installed successfully'',
      expand ARGOCD_PASSWORD (\<lambda>p. log_info (''ArgoCD admin password: '' @ p)),
      log_info ''Setting up port forwarding for ArgoCD (localhost:8080)...'']"
  define ys where "ys =
     [start_port_forward,
      log_info ''ArgoCD will be available at https://localhost:8080'',
      log_info (''Port forward PID saved to '' @ PID_FILE)]"
  have split: "install_argocd = commands (xs @ ys)"
    by (simp add: install_argocd_def xs_def ys_def)
  have xs_ok: "fst (commands xs w) = Continue"
  proof (rule ccontr)
    assume "fst (commands xs w) \<noteq> Continue"
    then have "install_argocd w = commands xs w"
      by (simp add: split commands_append_stop)
    with assms \<open>fst (commands xs w) \<noteq> Continue\<close> show False by simp
  qed
  define w1 where "w1 = snd (commands xs w)"
  have run: "install_argocd w = commands ys w1"
    by (simp add: split commands_append_go [OF xs_ok] w1_def)
  have "adds (from_only [InstallArgocd]) (commands xs)"
    by (simp add: xs_def adds_prims)
  then obtain evs1 where evs1: "trace w1 = trace w @ evs1" "list_all (from_only [InstallArgocd]) evs1"
    unfolding w1_def by (blast dest: addsD)
  have "trace (snd (commands ys w1)) =
          trace w1 @ [Spawn (next_pid w1), WritePid (next_pid w1),
                      LogLine INFO ''ArgoCD will be available at https://localhost:8080'',
                      LogLine INFO (''Port forward PID saved to '' @ PID_FILE)]"
    by (simp add: ys_def commands.simps prim_defs)
  with run evs1 show ?thesis
    by (intro exI [of _ "evs1 @ [Spawn (next_pid w1), WritePid (next_pid w1),
                      LogLine INFO ''ArgoCD will be available at https://localhost:8080'',
                      LogLine INFO (''Port forward PID saved to '' @ PID_FILE)]"]) simp
qed

lemma main_spawn_before_deploy:
  assumes "trace w = []"
  shows "precedes is_spawn (\<lambda>e. origin_of e = Some DeployApplication) (trace (snd (main w)))"
proof -
  let ?Q = "\<lambda>e. origin_of e = Some DeployApplication"
  define pre where "pre =
     [log_info ''Starting k3d bootstrap for ContractAnalyzer...'',
      call check_prerequisites, call create_cluster, call install_ingress_nginx,
      call install_keda]"
  define post where "post =
     [call deploy_application, call display_info, log_success ''Bootstrap completed!'']"
  have split: "main = commands (pre @ call install_argocd # post)"
    by (simp add: main_def pre_def post_def)
  let ?os = "[CheckPrerequisites, CreateCluster, InstallIngressNginx, InstallKeda]"
  have "adds (from_only ?os) (commands pre)"
    unfolding pre_def
    by (simp add: adds_prims
        adds_from_only_mono [OF adds_check_prerequisites]
        adds_from_only_mono [OF adds_create_cluster]
        adds_from_only_mono [OF adds_install_ingress_nginx]
        adds_from_only_mono [OF adds_install_keda])
  then obtain evs1 where evs1:
    "trace (snd (commands pre w)) = evs1" "list_all (from_only ?os) evs1"
    using assms by (auto dest: addsD [where w = w])
  have q1: "list_all (\<lambda>e. \<not> ?Q e) evs1"
    using evs1(2) by (auto simp: list_all_iff from_only_def split: option.splits)
  show ?thesis
  proof (cases "fst (commands pre w) = Continue")
    case False
    then have "main w = commands pre w"
      by (simp add: split commands_append_stop)
    with evs1 q1 show ?thesis by (simp add: precedes_no_Q)
  next
    case True
    define w1 where "w1 = snd (commands pre w)"
    have m1: "main w = commands (call install_argocd # post) w1"
      by (simp add: split commands_append_go [OF True] w1_def)
    obtain evs2 where evs2:
      "trace (snd (install_argocd w1)) = evs1 @ evs2" "list_all (from_only [InstallArgocd]) evs2"
      using addsD [OF adds_install_argocd, of w1] evs1 by (auto simp: w1_def)
    have q2: "list_all (\<lambda>e. \<not> ?Q e) evs2"
      using evs2(2) by (auto simp: list_all_iff from_only_def split: option.splits)
    show ?thesis
    proof (cases "fst (install_argocd w1) = Continue")
      case False
      then have "main w = install_argocd w1"
        by (simp add: m1 commands_stop call_id never_returns_stages)
      with evs2 q1 q2 show ?thesis by (simp add: precedes_no_Q)
    next
      case True
      from install_argocd_started [OF True] obtain evs2' where evs2':
        "trace (snd (install_argocd w1)) = trace w1 @ evs2'" "list_ex is_spawn evs2'"
        by blast
      with evs1 evs2 have "list_ex is_spawn evs2"
        by (simp add: w1_def)
      define w2 where "w2 = snd (install_argocd w1)"
      have m2: "main w = commands post w2"
        using True by (simp add: m1 commands_go call_id never_returns_stages w2_def)
      have "adds (\<lambda>e. True) (commands post)"
        by (rule adds_mono [where A = "from_only stage_origins"])
           (simp_all add: post_def adds_prims adds_stages)
      then obtain evs3 where "trace (snd (commands post w2)) = (evs1 @ evs2) @ evs3"
        using evs2(1) by (auto simp: w2_def dest: addsD [where w = w2])
      moreover have "precedes is_spawn ?Q ((evs1 @ evs2) @ evs3)"
        by (rule precedes_hit) (use \<open>list_ex is_spawn evs2\<close> q1 q2 in auto)
      ultimately show ?thesis by (simp add: m2)
    qed
  qed
qed

text \<open>
  C3, as the spec states it, fails: on a host where everything succeeds the tunnel is
  spawned (inside \<^verbatim>\<open>install_argocd\<close>, line 147) before the application
  descriptor is submitted (inside \<^verbatim>\<open>deploy_application\<close>, line 164).
\<close>

theorem tunnel_spawned_before_descriptor_submitted:
  "\<not> precedes (\<lambda>e. e = Run KubectlApplyApp) is_spawn (trace (snd (script fresh_host)))"
proof -
  have "precedes (\<lambda>e. e = Run KubectlApplyApp) is_spawn (trace (snd (script fresh_host)))
        = precedes (\<lambda>e. e = Run KubectlApplyApp) is_spawn (actions (trace (snd (script fresh_host))))"
    by (rule precedes_actions) (auto simp: is_output_not)
  then show ?thesis
    by (simp add: run_fresh_host)
qed

text \<open>
  C3, amended: in every run the order is the reverse of the one claimed. No command of
  \<^verbatim>\<open>deploy_application\<close> (the namespace, the application descriptor, the wait)
  runs before the background tunnel has been spawned; the tunnel is started by
  \<^verbatim>\<open>install_argocd\<close>, the stage before the application deploy.
\<close>

theorem deploy_only_after_tunnel_start:
  "precedes is_spawn (\<lambda>e. origin_of e = Some DeployApplication) (trace (snd (script w)))"
proof -
  have "list_all (\<lambda>e. origin_of e \<noteq> Some DeployApplication)
          (RunTrap CleanupHandler # cleanup_events (snd (main (armed w)))
             @ [ProcessExit (fst (main (armed w)))])"
    by (simp add: cleanup_events_def split: option.split)
  then show ?thesis
    unfolding script_trace_main
    by (intro precedes_append main_spawn_before_deploy) simp_all
qed

section \<open>The prerequisite check\<close>

lemma check_prerequisites_result:
  "check_prerequisites w =
     (case find (\<lambda>t. \<not> installed w t) required_tools of
        None \<Rightarrow>
          (Continue,
           w\<lparr>trace := trace w @ [LogLine INFO ''Checking prerequisites...'',
                                  LogLine SUCCESS ''All prerequisites are installed'']\<rparr>)
      | Some t \<Rightarrow>
          (Exiting 1,
           w\<lparr>trace := trace w @ [LogLine INFO ''Checking prerequisites...'',
                                  LogLine ERROR (t @ '' is not installed. Please install ''
                                                   @ t @ '' first.'')]\<rparr>))"
  by (simp add: check_prerequisites_def commands.simps if_then_def prim_defs required_tools_def)

lemma main_stops_at_check:
  assumes "find (\<lambda>t. \<not> installed w t) required_tools = Some t"
  shows "main w =
           (Exiting 1,
            w\<lparr>trace := trace w @ [LogLine INFO ''Starting k3d bootstrap for ContractAnalyzer...'',
                                   LogLine INFO ''Checking prerequisites...'',
                                   LogLine ERROR (t @ '' is not installed. Please install ''
                                                    @ t @ '' first.'')]\<rparr>)"
proof -
  define w1 where "w1 = snd (log_info ''Starting k3d bootstrap for ContractAnalyzer...'' w)"
  have w1: "installed w1 = installed w"
    "trace w1 = trace w @ [LogLine INFO ''Starting k3d bootstrap for ContractAnalyzer...'']"
    "w1 = w\<lparr>trace := trace w @ [LogLine INFO ''Starting k3d bootstrap for ContractAnalyzer...'']\<rparr>"
    by (simp_all add: w1_def prim_defs)
  have "fst (call check_prerequisites w1) \<noteq> Continue"
    using assms by (simp add: call_id never_returns_stages check_prerequisites_result w1(1))
  then have "main w = call check_prerequisites w1"
    by (simp add: main_def commands_go commands_stop log_info_def w1_def)
  then show ?thesis
    using assms
    by (simp add: call_id never_returns_stages check_prerequisites_result w1(1)) (simp add: w1(3))
qed

text \<open>
  C7: the tools are looked for in the order k3d, kubectl, helm. If one of them is
  missing, \<^verbatim>\<open>check_prerequisites\<close> stops at the first missing one with an error
  line that names it and leaves the shell with status 1, and the whole script has done
  nothing but print its first line, the line of the check and that error before the
  EXIT trap fires: no stage runs. If all are installed, the check succeeds.
\<close>

theorem check_prerequisites_fail_fast:
  "(case find (\<lambda>t. \<not> installed w t) required_tools of
      None \<Rightarrow>
        fst (check_prerequisites w) = Continue
        \<and> trace (snd (check_prerequisites w))
            = trace w @ [LogLine INFO ''Checking prerequisites...'',
                         LogLine SUCCESS ''All prerequisites are installed'']
    | Some t \<Rightarrow>
        fst (check_prerequisites w) = Exiting 1
        \<and> trace (snd (check_prerequisites w))
            = trace w @ [LogLine INFO ''Checking prerequisites...'',
                         LogLine ERROR (t @ '' is not installed. Please install ''
                                          @ t @ '' first.'')]
        \<and> fst (script w) = Exiting 1
        \<and> before_trap (trace (snd (script w)))
            = [LogLine INFO ''Starting k3d bootstrap for ContractAnalyzer...'',
               LogLine INFO ''Checking prerequisites...'',
               LogLine ERROR (t @ '' is not installed. Please install '' @ t @ '' first.'')])"
proof (cases "find (\<lambda>t. \<not> installed w t) required_tools")
  case None
  then show ?thesis by (simp add: check_prerequisites_result)
next
  case (Some t)
  then have "find (\<lambda>t. \<not> installed (armed w) t) required_tools = Some t"
    by simp
  from main_stops_at_check [OF this] Some show ?thesis
    by (simp add: check_prerequisites_result script_status_main before_trap_script)
qed

theorem check_prerequisites_fail_fast_witness:
  "fst (check_prerequisites fresh_host) = Continue
   \<and> fst (check_prerequisites no_kubectl) = Exiting 1
   \<and> fst (script no_kubectl) = Exiting 1
   \<and> before_trap (trace (snd (script no_kubectl)))
       = [LogLine INFO ''Starting k3d bootstrap for ContractAnalyzer...'',
          LogLine INFO ''Checking prerequisites...'',
          LogLine ERROR ''kubectl is not installed. Please install kubectl first.'']"
  using check_prerequisites_fail_fast [of fresh_host] check_prerequisites_fail_fast [of no_kubectl]
  by (simp add: fresh_host_def no_kubectl_def required_tools_def)

section \<open>The cluster provisioner\<close>

lemma line_contains_self: "line_contains s s"
  by (cases s) (auto simp: starts_with_self)

lemma grep_q_member: "s \<in> set ls \<Longrightarrow> grep_q s ls"
  by (auto simp: grep_q_def list_ex_iff intro!: bexI [of _ s] line_contains_self)

lemma create_cluster_existing:
  assumes "CLUSTER_NAME \<in> set (map fst (clusters w))"
  shows "create_cluster w =
           commands
             [log_warning (''Cluster '' @ CLUSTER_NAME @ '' already exists. Deleting it first...''),
              k3d_cluster_delete CLUSTER_NAME,
              k3d_cluster_create CLUSTER_NAME,
              run_ext KubectlUseContext,
              log_success (''k3d cluster '' @ CLUSTER_NAME @ '' created successfully'')]
             (snd (log_info (''Creating k3d cluster: '' @ CLUSTER_NAME @ ''...'') w))"
proof -
  have "grep_q CLUSTER_NAME (k3d_cluster_list w)"
    using assms by (simp add: grep_q_member k3d_cluster_list_def)
  then show ?thesis
    by (simp add: create_cluster_def commands.simps if_then_def log_info_def log_warning_def
        emit_def k3d_cluster_list_def split: prod.split status.split)
qed

text \<open>
  What the stage does when the cluster exists, for each outcome of its three external
  commands.
\<close>

lemma create_cluster_existing_run:
  assumes "CLUSTER_NAME \<in> set (map fst (clusters w))"
  shows "fst (create_cluster w) =
           (case outcome_of w K3dClusterDelete of
              Succeeds \<Rightarrow>
                (case outcome_of w K3dClusterCreate of
                   Succeeds \<Rightarrow>
                     (case outcome_of w KubectlUseContext of
                        Succeeds \<Rightarrow> Continue | Fails \<Rightarrow> Exiting 1 | Interrupted \<Rightarrow> Killed)
                 | Fails \<Rightarrow> Exiting 1 | Interrupted \<Rightarrow> Killed)
            | Fails \<Rightarrow> Exiting 1 | Interrupted \<Rightarrow> Killed)"
    and "actions (drop (length (trace w)) (trace (snd (create_cluster w))))
           = (if outcome_of w K3dClusterDelete \<noteq> Succeeds then [Run K3dClusterDelete]
              else if outcome_of w K3dClusterCreate \<noteq> Succeeds
              then [Run K3dClusterDelete, Run K3dClusterCreate]
              else [Run K3dClusterDelete, Run K3dClusterCreate, Run KubectlUseContext])"
    and "clusters (snd (create_cluster w))
           = (if outcome_of w K3dClusterDelete \<noteq> Succeeds then clusters w
              else if outcome_of w K3dClusterCreate \<noteq> Succeeds
              then filter (\<lambda>c. fst c \<noteq> CLUSTER_NAME) (clusters w)
              else filter (\<lambda>c. fst c \<noteq> CLUSTER_NAME) (clusters w) @ [(CLUSTER_NAME, clock w)])"
proof -
  have free: "CLUSTER_NAME \<notin> fst ` {x \<in> set (clusters w). fst x \<noteq> CLUSTER_NAME}"
    by auto
  show "fst (create_cluster w) =
           (case outcome_of w K3dClusterDelete of
              Succeeds \<Rightarrow>
                (case outcome_of w K3dClusterCreate of
                   Succeeds \<Rightarrow>
                     (case outcome_of w KubectlUseContext of
                        Succeeds \<Rightarrow> Continue | Fails \<Rightarrow> Exiting 1 | Interrupted \<Rightarrow> Killed)
                 | Fails \<Rightarrow> Exiting 1 | Interrupted \<Rightarrow> Killed)
            | Fails \<Rightarrow> Exiting 1 | Interrupted \<Rightarrow> Killed)"
    unfolding create_cluster_existing [OF assms]
    by (simp add: commands.simps prim_defs free split: outcome.split)
  show "actions (drop (length (trace w)) (trace (snd (create_cluster w))))
           = (if outcome_of w K3dClusterDelete \<noteq> Succeeds then [Run K3dClusterDelete]
              else if outcome_of w K3dClusterCreate \<noteq> Succeeds
              then [Run K3dClusterDelete, Run K3dClusterCreate]
              else [Run K3dClusterDelete, Run K3dClusterCreate, Run KubectlUseContext])"
    unfolding create_cluster_existing [OF assms]
    by (simp add: commands.simps prim_defs actions_def free split: outcome.split)
  show "clusters (snd (create_cluster w))
           = (if outcome_of w K3dClusterDelete \<noteq> Succeeds then clusters w
              else if outcome_of w K3dClusterCreate \<noteq> Succeeds
              then filter (\<lambda>c. fst c \<noteq> CLUSTER_NAME) (clusters w)
              else filter (\<lambda>c. fst c \<noteq> CLUSTER_NAME) (clusters w) @ [(CLUSTER_NAME, clock w)])"
    unfolding create_cluster_existing [OF assms]
    by (simp add: commands.simps prim_defs free split: outcome.split)
qed

text \<open>
  C2: when a cluster named \<^verbatim>\<open>ca-dev\<close> exists as \<^verbatim>\<open>create_cluster\<close> starts, the
  first command that the stage runs is \<^verbatim>\<open>k3d cluster delete\<close>, and
  \<^verbatim>\<open>k3d cluster create\<close> runs only once the delete has returned successfully. The
  stage completes exactly when the delete, the create and the context switch succeed.
  After a successful delete and create exactly one cluster of that name exists, it
  carries the time of this run as its creation stamp, so it is newer than every cluster
  that existed before (whose stamps lie in the past), and the clusters of other names
  are as they were. When the delete fails the clusters are untouched; when the create
  fails after the delete the old cluster is gone and no new one exists.
\<close>

theorem create_cluster_recreates:
  assumes "CLUSTER_NAME \<in> set (map fst (clusters w))"
  shows "(fst (create_cluster w) = Continue \<longleftrightarrow>
            outcome_of w K3dClusterDelete = Succeeds
            \<and> outcome_of w K3dClusterCreate = Succeeds
            \<and> outcome_of w KubectlUseContext = Succeeds)
         \<and> actions (drop (length (trace w)) (trace (snd (create_cluster w))))
             = (if outcome_of w K3dClusterDelete \<noteq> Succeeds then [Run K3dClusterDelete]
                else if outcome_of w K3dClusterCreate \<noteq> Succeeds
                then [Run K3dClusterDelete, Run K3dClusterCreate]
                else [Run K3dClusterDelete, Run K3dClusterCreate, Run KubectlUseContext])
         \<and> clusters (snd (create_cluster w))
             = (if outcome_of w K3dClusterDelete \<noteq> Succeeds then clusters w
                else if outcome_of w K3dClusterCreate \<noteq> Succeeds
                then filter (\<lambda>c. fst c \<noteq> CLUSTER_NAME) (clusters w)
                else filter (\<lambda>c. fst c \<noteq> CLUSTER_NAME) (clusters w)
                     @ [(CLUSTER_NAME, clock w)])
         \<and> precedes (\<lambda>e. e = Run K3dClusterDelete) (\<lambda>e. e = Run K3dClusterCreate)
             (drop (length (trace w)) (trace (snd (create_cluster w))))
         \<and> (outcome_of w K3dClusterDelete = Succeeds \<and> outcome_of w K3dClusterCreate = Succeeds
              \<longrightarrow>
              filter (\<lambda>c. fst c = CLUSTER_NAME) (clusters (snd (create_cluster w)))
                = [(CLUSTER_NAME, clock w)]
              \<and> filter (\<lambda>c. fst c \<noteq> CLUSTER_NAME) (clusters (snd (create_cluster w)))
                  = filter (\<lambda>c. fst c \<noteq> CLUSTER_NAME) (clusters w)
              \<and> (list_all (\<lambda>c. snd c < clock w) (clusters w) \<longrightarrow>
                   list_all (\<lambda>old. list_all (\<lambda>new. snd old < snd new)
                               (filter (\<lambda>c. fst c = CLUSTER_NAME)
                                  (clusters (snd (create_cluster w)))))
                     (clusters w)))"
proof -
  have gone: "filter (\<lambda>c. fst c = n) (filter (\<lambda>c. fst c \<noteq> n) cs) = []"
    for n :: string and cs :: "(string \<times> nat) list"
    by (induction cs) auto
  have kept: "filter (\<lambda>c. fst c \<noteq> n) (filter (\<lambda>c. fst c \<noteq> n) cs) = filter (\<lambda>c. fst c \<noteq> n) cs"
    for n :: string and cs :: "(string \<times> nat) list"
    by (induction cs) auto
  note run = create_cluster_existing_run [OF assms]
  have status: "fst (create_cluster w) = Continue \<longleftrightarrow>
            outcome_of w K3dClusterDelete = Succeeds
            \<and> outcome_of w K3dClusterCreate = Succeeds
            \<and> outcome_of w KubectlUseContext = Succeeds"
    unfolding run(1) by (simp split: outcome.split)
  have order: "precedes (\<lambda>e. e = Run K3dClusterDelete) (\<lambda>e. e = Run K3dClusterCreate)
             (drop (length (trace w)) (trace (snd (create_cluster w))))"
  proof -
    have "precedes (\<lambda>e. e = Run K3dClusterDelete) (\<lambda>e. e = Run K3dClusterCreate)
            (drop (length (trace w)) (trace (snd (create_cluster w))))
          = precedes (\<lambda>e. e = Run K3dClusterDelete) (\<lambda>e. e = Run K3dClusterCreate)
              (actions (drop (length (trace w)) (trace (snd (create_cluster w)))))"
      by (rule precedes_actions) (auto simp: is_output_not)
    then show ?thesis
      by (simp add: run(2))
  qed
  have after: "filter (\<lambda>c. fst c = CLUSTER_NAME) (clusters (snd (create_cluster w)))
                = [(CLUSTER_NAME, clock w)]
              \<and> filter (\<lambda>c. fst c \<noteq> CLUSTER_NAME) (clusters (snd (create_cluster w)))
                  = filter (\<lambda>c. fst c \<noteq> CLUSTER_NAME) (clusters w)
              \<and> (list_all (\<lambda>c. snd c < clock w) (clusters w) \<longrightarrow>
                   list_all (\<lambda>old. list_all (\<lambda>new. snd old < snd new)
                               (filter (\<lambda>c. fst c = CLUSTER_NAME)
                                  (clusters (snd (create_cluster w)))))
                     (clusters w))"
    if "outcome_of w K3dClusterDelete = Succeeds \<and> outcome_of w K3dClusterCreate = Succeeds"
    using that by (simp add: run(3) gone kept list_all_iff)
  from status run(2) run(3) order after show ?thesis
    by blast
qed

theorem create_cluster_recreates_witness:
  "CLUSTER_NAME \<in> set (map fst (clusters existing_cluster))
   \<and> fst (create_cluster existing_cluster) = Continue
   \<and> clusters existing_cluster = [(''ca-dev'', 1), (''other'', 2)]
   \<and> clusters (snd (create_cluster existing_cluster)) = [(''other'', 2), (''ca-dev'', 5)]
   \<and> actions (trace (snd (create_cluster existing_cluster)))
       = [Run K3dClusterDelete, Run K3dClusterCreate, Run KubectlUseContext]"
proof -
  have ex: "CLUSTER_NAME \<in> set (map fst (clusters existing_cluster))"
    by (simp add: existing_cluster_def fresh_host_def CLUSTER_NAME_def)
  have run: "trace existing_cluster = []" "clock existing_cluster = 5"
    "outcome_of existing_cluster = (\<lambda>x. Succeeds)"
    "clusters existing_cluster = [(''ca-dev'', 1), (''other'', 2)]"
    by (simp_all add: existing_cluster_def fresh_host_def)
  from create_cluster_recreates [OF ex] ex show ?thesis
    by (simp add: run) (simp add: CLUSTER_NAME_def)
qed

section \<open>Starting the tunnel\<close>

text \<open>
  What \<^verbatim>\<open>install_argocd\<close> does to the handle file and the process table: nothing if
  it fails (every command that can fail comes before the tunnel start), and when it
  completes, one new process and the handle file overwritten with its identifier.
\<close>

lemma install_argocd_procs:
  "procs (snd (install_argocd w)) =
     (if fst (install_argocd w) = Continue
      then (Some (next_pid w), insert (next_pid w) (alive w), next_pid w, shell_pid w)
      else procs w)"
proof -
  define xs where "xs =
     [log_info (''Installing ArgoCD '' @ ARGOCD_VERSION @ ''...''),
      run_ext (KubectlApplyNamespace ''argocd''),
      run_ext KubectlApplyArgoInstall,
      log_info ''Waiting for ArgoCD to be ready...'',
      kubectl_wait_available 300 ArgoCD,
      read_admin_password,
      log_success ''ArgoCD installed successfully'',
      expand ARGOCD_PASSWORD (\<lambda>p. log_info (''ArgoCD admin password: '' @ p)),
      log_info ''Setting up port forwarding for ArgoCD (localhost:8080)...'']"
  define ys where "ys =
     [start_port_forward,
      log_info ''ArgoCD will be available at https://localhost:8080'',
      log_info (''Port forward PID saved to '' @ PID_FILE)]"
  have split: "install_argocd = commands (xs @ ys)"
    by (simp add: install_argocd_def xs_def ys_def)
  have "keeps procs (commands xs)"
    by (simp add: xs_def keeps_prims)
  then have xs_procs: "procs (snd (commands xs w)) = procs w"
    by (rule keepsD)
  then have xs_next: "next_pid (snd (commands xs w)) = next_pid w"
    "alive (snd (commands xs w)) = alive w" "shell_pid (snd (commands xs w)) = shell_pid w"
    by (simp_all add: procs_def next_pid_def)
  have ys_run: "fst (commands ys v) = Continue"
    "procs (snd (commands ys v))
       = (Some (next_pid v), insert (next_pid v) (alive v), next_pid v, shell_pid v)"
    for v
    by (simp_all add: ys_def commands.simps prim_defs procs_def)
  show ?thesis
  proof (cases "fst (commands xs w) = Continue")
    case True
    then have "install_argocd w = commands ys (snd (commands xs w))"
      by (simp add: split commands_append_go)
    with xs_next ys_run [of "snd (commands xs w)"] show ?thesis
      by simp
  next
    case False
    then have "install_argocd w = commands xs w"
      by (simp add: split commands_append_stop)
    with False xs_procs show ?thesis by simp
  qed
qed

lemma run_live_handle:
  "fst (script live_handle) = Continue"
  "actions (trace (snd (script live_handle))) =
     [Run K3dClusterCreate, Run KubectlUseContext,
      Run (HelmRepoAdd IngressNginx), Run (HelmRepoUpdate IngressNginx),
      Run (HelmUpgradeInstall IngressNginx),
      Run (HelmRepoAdd Keda), Run (HelmRepoUpdate Keda), Run (HelmUpgradeInstall Keda),
      Run (KubectlApplyNamespace ''argocd''), Run KubectlApplyArgoInstall,
      Run KubectlWaitArgoServer, ReadSecret, Spawn 100, WritePid 100,
      Run (KubectlApplyNamespace ''contract-analyzer''), Run KubectlApplyApp, Run Sleep,
      RunTrap CleanupHandler, Kill 100, RemovePid, ProcessExit Continue]"
  "alive (snd (script live_handle)) = {4242}"
  by (simp_all add: live_handle_def fresh_host_def run_defs)

lemma install_argocd_live_handle:
  "fst (install_argocd live_handle) = Continue"
  "alive (snd (install_argocd live_handle)) = {100, 4242}"
  "pidfile (snd (install_argocd live_handle)) = Some 100"
  by (simp_all add: live_handle_def fresh_host_def run_defs)

text \<open>
  C8, as the spec states it, fails: with the handle file naming the running process
  4242, \<^verbatim>\<open>install_argocd\<close> starts a second tunnel process 100 next to it and
  overwrites the handle file; process 4242 is never sent a signal and is still running
  when the whole script has ended.
\<close>

theorem stale_tunnel_not_reaped:
  "pidfile live_handle = Some 4242
   \<and> alive live_handle = {4242}
   \<and> alive (snd (install_argocd live_handle)) = {100, 4242}
   \<and> pidfile (snd (install_argocd live_handle)) = Some 100
   \<and> filter (\<lambda>e. e = Kill 4242) (trace (snd (script live_handle))) = []
   \<and> alive (snd (script live_handle)) = {4242}"
proof -
  have "filter (\<lambda>e. e = Kill 4242) (trace (snd (script live_handle)))
          = filter (\<lambda>e. e = Kill 4242) (actions (trace (snd (script live_handle))))"
    by (rule filter_actions [symmetric]) (auto simp: is_output_not)
  then show ?thesis
    by (simp add: run_live_handle install_argocd_live_handle)
       (simp add: live_handle_def fresh_host_def)
qed

text \<open>
  C8, amended: starting the tunnel reaps nothing. \<^verbatim>\<open>install_argocd\<close> never ends a
  process and never removes the handle file: every process that was running before is
  still running after it. When it completes, it has added one new process and
  overwritten the handle file with the identifier of that process, whatever the file
  named before; when it fails, the handle file and the processes are as they were.
\<close>

theorem start_reaps_nothing:
  "alive w \<subseteq> alive (snd (install_argocd w))
   \<and> list_all (\<lambda>e. origin_of e \<noteq> Some Cleanup)
        (drop (length (trace w)) (trace (snd (install_argocd w))))
   \<and> (if fst (install_argocd w) = Continue
       then alive (snd (install_argocd w)) = insert (next_pid w) (alive w)
            \<and> pidfile (snd (install_argocd w)) = Some (next_pid w)
       else alive (snd (install_argocd w)) = alive w
            \<and> pidfile (snd (install_argocd w)) = pidfile w)"
proof -
  from addsD [OF adds_install_argocd, of w] obtain evs where
    evs: "trace (snd (install_argocd w)) = trace w @ evs" "list_all (from_only [InstallArgocd]) evs"
    by blast
  have "list_all (\<lambda>e. origin_of e \<noteq> Some Cleanup) evs"
    using evs(2) by (auto simp: list_all_iff from_only_def split: option.splits)
  with evs(1) install_argocd_procs [of w] show ?thesis
    by (auto simp: procs_def split: if_splits)
qed

section \<open>Readiness waits\<close>

text \<open>
  A list of commands in which one command is bound to fail: the list fails, and nothing
  behind that command runs.
\<close>

lemma fails_at:
  assumes xs: "adds A (commands xs)" "keeps fixed (commands xs)"
    and c: "\<And>v. fixed v = fixed w \<Longrightarrow>
                 fst (c v) \<noteq> Continue \<and> extends_with A v (snd (c v))"
  shows "fst (commands (xs @ c # ys) w) \<noteq> Continue
         \<and> extends_with A w (snd (commands (xs @ c # ys) w))"
proof (cases "fst (commands xs w) = Continue")
  case False
  then have "commands (xs @ c # ys) w = commands xs w"
    by (rule commands_append_stop)
  with False xs(1) show ?thesis by (simp add: adds_def)
next
  case True
  define w1 where "w1 = snd (commands xs w)"
  have "fixed w1 = fixed w"
    unfolding w1_def using xs(2) by (rule keepsD)
  then have stop: "fst (c w1) \<noteq> Continue" and ext: "extends_with A w1 (snd (c w1))"
    using c by blast+
  have "commands (xs @ c # ys) w = commands (c # ys) w1"
    by (simp add: commands_append_go [OF True] w1_def)
  also have "\<dots> = c w1"
    using stop by (rule commands_stop)
  finally have eq: "commands (xs @ c # ys) w = c w1" .
  have "extends_with A w w1"
    unfolding w1_def using xs(1) by (simp add: adds_def)
  then have "extends_with A w (snd (c w1))"
    using ext by (rule extends_with_trans)
  with stop eq show ?thesis by simp
qed

lemma available_within_fixed:
  "fixed v = fixed w \<Longrightarrow> available_within n v c = available_within n w c"
  "fixed v = fixed w \<Longrightarrow> helm_wait_limit v = helm_wait_limit w"
  by (simp_all add: fixed_def available_within_def)

lemma kubectl_wait_gives_up:
  "\<not> available_within n w c \<Longrightarrow> fst (kubectl_wait_available n c w) \<noteq> Continue"
  by (simp add: available_within_def prim_defs split: outcome.split option.splits)

lemma helm_wait_gives_up:
  "\<not> available_within (helm_wait_limit w) w c \<Longrightarrow> fst (helm_upgrade_install_wait c w) \<noteq> Continue"
  by (simp add: available_within_def prim_defs split: outcome.split option.splits)

lemma after_wait_origin: "after_wait e \<Longrightarrow> origin_of e = Some InstallArgocd"
  by (cases e) simp_all

lemma adds_stage_in:
  assumes "adds (from_only [f]) c" and "f \<in> set os"
  shows "adds (from_only os) c"
  using assms(1) by (rule adds_from_only_mono) (use assms(2) in simp)

lemma adds_stage_in_before_wait:
  assumes "adds (from_only [f]) c" and "f \<in> set os" and "f \<noteq> InstallArgocd"
  shows "adds (\<lambda>e. from_only os e \<and> \<not> after_wait e) c"
  using assms(1)
proof (rule adds_mono)
  fix e
  assume e: "from_only [f] e"
  then have "from_only os e"
    by (rule from_only_mono [rotated]) (use assms(2) in simp)
  moreover have "\<not> after_wait e"
    using e assms(3) by (auto simp: from_only_def dest!: after_wait_origin)
  ultimately show "from_only os e \<and> \<not> after_wait e" ..
qed

lemma install_argocd_gives_up:
  assumes "\<not> available_within 300 w ArgoCD"
  shows "fst (install_argocd w) \<noteq> Continue
         \<and> extends_with (\<lambda>e. from_only [InstallArgocd] e \<and> \<not> after_wait e) w
             (snd (install_argocd w))"
proof -
  let ?A = "\<lambda>e. from_only [InstallArgocd] e \<and> \<not> after_wait e"
  define xs where "xs =
     [log_info (''Installing ArgoCD '' @ ARGOCD_VERSION @ ''...''),
      run_ext (KubectlApplyNamespace ''argocd''),
      run_ext KubectlApplyArgoInstall,
      log_info ''Waiting for ArgoCD to be ready...'']"
  define ys where "ys =
     [read_admin_password,
      log_success ''ArgoCD installed successfully'',
      expand ARGOCD_PASSWORD (\<lambda>p. log_info (''ArgoCD admin password: '' @ p)),
      log_info ''Setting up port forwarding for ArgoCD (localhost:8080)...'',
      start_port_forward,
      log_info ''ArgoCD will be available at https://localhost:8080'',
      log_info (''Port forward PID saved to '' @ PID_FILE)]"
  have split: "install_argocd = commands (xs @ kubectl_wait_available 300 ArgoCD # ys)"
    by (simp add: install_argocd_def xs_def ys_def)
  have 1: "adds ?A (commands xs)"
    by (simp add: xs_def adds_prims)
  have 2: "keeps fixed (commands xs)"
    by (simp add: xs_def keeps_prims)
  have w: "adds ?A (kubectl_wait_available 300 ArgoCD)"
    by (simp add: adds_prims)
  have 3: "fst (kubectl_wait_available 300 ArgoCD v) \<noteq> Continue
                \<and> extends_with ?A v (snd (kubectl_wait_available 300 ArgoCD v))"
    if "fixed v = fixed w" for v
  proof -
    from assms have "\<not> available_within 300 v ArgoCD"
      unfolding available_within_fixed(1) [OF that] .
    then have "fst (kubectl_wait_available 300 ArgoCD v) \<noteq> Continue"
      by (rule kubectl_wait_gives_up)
    moreover from w
    have "extends_with ?A v (snd (kubectl_wait_available 300 ArgoCD v))"
      unfolding adds_def by blast
    ultimately show ?thesis ..
  qed
  show ?thesis
    unfolding split
    by (rule fails_at [where A = ?A and c = "kubectl_wait_available 300 ArgoCD", OF 1 2 3])
qed

lemma install_helm_gives_up:
  assumes pre: "adds A (commands xs)" "keeps fixed (commands xs)"
    and helm: "A (Run (HelmUpgradeInstall c))"
    and never: "\<not> available_within (helm_wait_limit w) w c"
  shows "fst (commands (xs @ helm_upgrade_install_wait c # ys) w) \<noteq> Continue
         \<and> extends_with A w (snd (commands (xs @ helm_upgrade_install_wait c # ys) w))"
proof -
  have "adds A (helm_upgrade_install_wait c)"
    using helm by (rule adds_helm)
  then have "fst (helm_upgrade_install_wait c v) \<noteq> Continue
             \<and> extends_with A v (snd (helm_upgrade_install_wait c v))"
    if "fixed v = fixed w" for v
    using never that helm_wait_gives_up [of v c]
      available_within_fixed(1) [OF that, of "helm_wait_limit w" c]
      available_within_fixed(2) [OF that]
    by (simp add: adds_def)
  then show ?thesis
    by (rule fails_at [where A = A and c = "helm_upgrade_install_wait c", OF pre])
qed

lemma install_ingress_nginx_gives_up:
  assumes "\<not> available_within (helm_wait_limit w) w IngressNginx"
  shows "fst (install_ingress_nginx w) \<noteq> Continue
         \<and> extends_with (from_only [InstallIngressNginx]) w (snd (install_ingress_nginx w))"
proof -
  define xs where "xs =
     [log_info (''Installing Ingress-NGINX '' @ NGINX_VERSION @ ''...''),
      run_ext (HelmRepoAdd IngressNginx),
      run_ext (HelmRepoUpdate IngressNginx)]"
  have split: "install_ingress_nginx =
      commands (xs @ helm_upgrade_install_wait IngressNginx
                  # [log_success ''Ingress-NGINX installed successfully''])"
    by (simp add: install_ingress_nginx_def xs_def)
  have 1: "adds (from_only [InstallIngressNginx]) (commands xs)"
    by (simp add: xs_def adds_prims)
  have 2: "keeps fixed (commands xs)"
    by (simp add: xs_def keeps_prims)
  have 3: "from_only [InstallIngressNginx] (Run (HelmUpgradeInstall IngressNginx))"
    by simp
  show ?thesis
    unfolding split by (rule install_helm_gives_up [OF 1 2 3 assms])
qed

lemma install_keda_gives_up:
  assumes "\<not> available_within (helm_wait_limit w) w Keda"
  shows "fst (install_keda w) \<noteq> Continue
         \<and> extends_with (from_only [InstallKeda]) w (snd (install_keda w))"
proof -
  define xs where "xs =
     [log_info (''Installing KEDA '' @ KEDA_VERSION @ ''...''),
      run_ext (HelmRepoAdd Keda),
      run_ext (HelmRepoUpdate Keda)]"
  have split: "install_keda =
      commands (xs @ helm_upgrade_install_wait Keda # [log_success ''KEDA installed successfully''])"
    by (simp add: install_keda_def xs_def)
  have 1: "adds (from_only [InstallKeda]) (commands xs)"
    by (simp add: xs_def adds_prims)
  have 2: "keeps fixed (commands xs)"
    by (simp add: xs_def keeps_prims)
  have 3: "from_only [InstallKeda] (Run (HelmUpgradeInstall Keda))"
    by simp
  show ?thesis
    unfolding split by (rule install_helm_gives_up [OF 1 2 3 assms])
qed

text \<open>From \<^verbatim>\<open>main\<close> to the whole script: the trap and the end of the process follow.\<close>

lemma script_of_main:
  assumes "fst (main (armed w)) \<noteq> Continue"
    and "extends_with A (armed w) (snd (main (armed w)))"
    and "\<And>e. origin_of e = Some Shell \<or> origin_of e = Some Cleanup \<Longrightarrow> A e"
  shows "fst (script w) \<noteq> Continue \<and> list_all A (trace (snd (script w)))"
proof -
  have "fst (script w) \<noteq> Continue"
    using assms(1) by (simp add: script_status_main)
  moreover from assms(2) have "list_all A (trace (snd (main (armed w))))"
    by (auto simp: extends_with_def)
  moreover have "list_all A (cleanup_events v)" for v
    by (simp add: cleanup_events_def assms(3) split: option.split)
  moreover have "A (RunTrap CleanupHandler)" "A (ProcessExit st)" for st
    by (simp_all add: assms(3))
  ultimately show ?thesis
    by (simp add: script_trace_main)
qed

lemma stage_failure_ends_script:
  assumes split: "main = commands (xs @ call f # ys)"
    and pre: "adds A (commands xs)" "keeps fixed (commands xs)"
    and nr: "never_returns f"
    and stage: "\<And>v. fixed v = fixed (armed w) \<Longrightarrow>
                     fst (f v) \<noteq> Continue \<and> extends_with A v (snd (f v))"
    and fin: "\<And>e. origin_of e = Some Shell \<or> origin_of e = Some Cleanup \<Longrightarrow> A e"
  shows "fst (script w) \<noteq> Continue \<and> list_all A (trace (snd (script w)))"
proof -
  have "fst (call f v) \<noteq> Continue \<and> extends_with A v (snd (call f v))"
    if "fixed v = fixed (armed w)" for v
    using stage [OF that] by (simp add: call_id [OF nr])
  then have "fst (commands (xs @ call f # ys) (armed w)) \<noteq> Continue
             \<and> extends_with A (armed w) (snd (commands (xs @ call f # ys) (armed w)))"
    by (rule fails_at [where A = A and c = "call f", OF pre])
  then show ?thesis
    unfolding split [symmetric] using fin by (intro script_of_main) simp_all
qed

lemma available_within_armed [simp]:
  "available_within n (armed w) c = available_within n w c"
  by (simp add: available_within_def)

lemma script_gives_up_argocd:
  assumes "\<not> available_within 300 w ArgoCD"
  shows "fst (script w) \<noteq> Continue
         \<and> list_all (\<lambda>e. from_only [CheckPrerequisites, CreateCluster, InstallIngressNginx,
                                     InstallKeda, InstallArgocd, Cleanup, Shell] e
                          \<and> \<not> after_wait e)
             (trace (snd (script w)))"
proof -
  let ?os = "[CheckPrerequisites, CreateCluster, InstallIngressNginx, InstallKeda,
              InstallArgocd, Cleanup, Shell]"
  let ?A = "\<lambda>e. from_only ?os e \<and> \<not> after_wait e"
  define xs where "xs =
     [log_info ''Starting k3d bootstrap for ContractAnalyzer...'',
      call check_prerequisites, call create_cluster, call install_ingress_nginx,
      call install_keda]"
  define ys where "ys =
     [call deploy_application, call display_info, log_success ''Bootstrap completed!'']"
  have split: "main = commands (xs @ call install_argocd # ys)"
    by (simp add: main_def xs_def ys_def)
  have 1: "adds ?A (commands xs)"
    unfolding xs_def
    by (simp add: adds_prims
        adds_stage_in_before_wait [OF adds_check_prerequisites]
        adds_stage_in_before_wait [OF adds_create_cluster]
        adds_stage_in_before_wait [OF adds_install_ingress_nginx]
        adds_stage_in_before_wait [OF adds_install_keda])
  have 2: "keeps fixed (commands xs)"
    by (simp add: xs_def keeps_prims keeps_stages)
  have 3: "fst (install_argocd v) \<noteq> Continue \<and> extends_with ?A v (snd (install_argocd v))"
    if "fixed v = fixed (armed w)" for v
  proof -
    from assms have "\<not> available_within 300 v ArgoCD"
      unfolding available_within_fixed(1) [OF that] by simp
    from install_argocd_gives_up [OF this] show ?thesis
      by (auto elim!: extends_with_mono intro: from_only_mono [rotated])
  qed
  have 4: "?A e" if "origin_of e = Some Shell \<or> origin_of e = Some Cleanup" for e
    using that by (auto simp: from_only_def dest!: after_wait_origin)
  show ?thesis
    by (rule stage_failure_ends_script [where A = ?A, OF split 1 2 never_returns_stages(5) 3 4])
qed

lemma script_gives_up_ingress:
  assumes "\<not> available_within (helm_wait_limit w) w IngressNginx"
  shows "fst (script w) \<noteq> Continue
         \<and> list_all (from_only [CheckPrerequisites, CreateCluster, InstallIngressNginx,
                                 Cleanup, Shell])
             (trace (snd (script w)))"
proof -
  let ?os = "[CheckPrerequisites, CreateCluster, InstallIngressNginx, Cleanup, Shell]"
  define xs where "xs =
     [log_info ''Starting k3d bootstrap for ContractAnalyzer...'',
      call check_prerequisites, call create_cluster]"
  define ys where "ys =
     [call install_keda, call install_argocd, call deploy_application, call display_info,
      log_success ''Bootstrap completed!'']"
  have split: "main = commands (xs @ call install_ingress_nginx # ys)"
    by (simp add: main_def xs_def ys_def)
  have 1: "adds (from_only ?os) (commands xs)"
    unfolding xs_def
    by (simp add: adds_prims adds_stage_in [OF adds_check_prerequisites]
        adds_stage_in [OF adds_create_cluster])
  have 2: "keeps fixed (commands xs)"
    by (simp add: xs_def keeps_prims keeps_stages)
  have 3: "fst (install_ingress_nginx v) \<noteq> Continue
           \<and> extends_with (from_only ?os) v (snd (install_ingress_nginx v))"
    if "fixed v = fixed (armed w)" for v
  proof -
    from assms have "\<not> available_within (helm_wait_limit v) v IngressNginx"
      unfolding available_within_fixed(1) [OF that] available_within_fixed(2) [OF that] by simp
    from install_ingress_nginx_gives_up [OF this] show ?thesis
      by (auto elim!: extends_with_mono intro: from_only_mono [rotated])
  qed
  have 4: "from_only ?os e" if "origin_of e = Some Shell \<or> origin_of e = Some Cleanup" for e
    using that by (auto simp: from_only_def)
  show ?thesis
    by (rule stage_failure_ends_script
          [where A = "from_only ?os", OF split 1 2 never_returns_stages(3) 3 4])
qed

lemma script_gives_up_keda:
  assumes "\<not> available_within (helm_wait_limit w) w Keda"
  shows "fst (script w) \<noteq> Continue
         \<and> list_all (from_only [CheckPrerequisites, CreateCluster, InstallIngressNginx,
                                 InstallKeda, Cleanup, Shell])
             (trace (snd (script w)))"
proof -
  let ?os = "[CheckPrerequisites, CreateCluster, InstallIngressNginx, InstallKeda, Cleanup, Shell]"
  define xs where "xs =
     [log_info ''Starting k3d bootstrap for ContractAnalyzer...'',
      call check_prerequisites, call create_cluster, call install_ingress_nginx]"
  define ys where "ys =
     [call install_argocd, call deploy_application, call display_info,
      log_success ''Bootstrap completed!'']"
  have split: "main = commands (xs @ call install_keda # ys)"
    by (simp add: main_def xs_def ys_def)
  have 1: "adds (from_only ?os) (commands xs)"
    unfolding xs_def
    by (simp add: adds_prims adds_stage_in [OF adds_check_prerequisites]
        adds_stage_in [OF adds_create_cluster] adds_stage_in [OF adds_install_ingress_nginx])
  have 2: "keeps fixed (commands xs)"
    by (simp add: xs_def keeps_prims keeps_stages)
  have 3: "fst (install_keda v) \<noteq> Continue
           \<and> extends_with (from_only ?os) v (snd (install_keda v))"
    if "fixed v = fixed (armed w)" for v
  proof -
    from assms have "\<not> available_within (helm_wait_limit v) v Keda"
      unfolding available_within_fixed(1) [OF that] available_within_fixed(2) [OF that] by simp
    from install_keda_gives_up [OF this] show ?thesis
      by (auto elim!: extends_with_mono intro: from_only_mono [rotated])
  qed
  have 4: "from_only ?os e" if "origin_of e = Some Shell \<or> origin_of e = Some Cleanup" for e
    using that by (auto simp: from_only_def)
  show ?thesis
    by (rule stage_failure_ends_script
          [where A = "from_only ?os", OF split 1 2 never_returns_stages(4) 3 4])
qed

lemma run_slow_ingress:
  "fst (install_ingress_nginx slow_ingress) = Continue"
  "clock (snd (install_ingress_nginx slow_ingress)) = clock slow_ingress + 500"
  "actions (trace (snd (install_ingress_nginx slow_ingress)))
     = [Run (HelmRepoAdd IngressNginx), Run (HelmRepoUpdate IngressNginx),
        Run (HelmUpgradeInstall IngressNginx)]"
  by (simp_all add: slow_ingress_def fresh_host_def run_defs)

lemma run_ingress_never_ready:
  "fst (install_ingress_nginx ingress_never_ready) = Exiting 1"
  "actions (trace (snd (install_ingress_nginx ingress_never_ready)))
     = [Run (HelmRepoAdd IngressNginx), Run (HelmRepoUpdate IngressNginx),
        Run (HelmUpgradeInstall IngressNginx)]"
  "fst (script ingress_never_ready) = Exiting 1"
  "actions (trace (snd (script ingress_never_ready)))
     = [Run K3dClusterCreate, Run KubectlUseContext,
        Run (HelmRepoAdd IngressNginx), Run (HelmRepoUpdate IngressNginx),
        Run (HelmUpgradeInstall IngressNginx),
        RunTrap CleanupHandler, ProcessExit (Exiting 1)]"
  by (simp_all add: ingress_never_ready_def fresh_host_def run_defs)

lemma run_keda_never_ready:
  "fst (script keda_never_ready) = Exiting 1"
  "actions (trace (snd (script keda_never_ready)))
     = [Run K3dClusterCreate, Run KubectlUseContext,
        Run (HelmRepoAdd IngressNginx), Run (HelmRepoUpdate IngressNginx),
        Run (HelmUpgradeInstall IngressNginx),
        Run (HelmRepoAdd Keda), Run (HelmRepoUpdate Keda), Run (HelmUpgradeInstall Keda),
        RunTrap CleanupHandler, ProcessExit (Exiting 1)]"
  by (simp_all add: keda_never_ready_def fresh_host_def run_defs)

lemma run_argocd_never_ready:
  "fst (script argocd_never_ready) = Exiting 1"
  "actions (trace (snd (script argocd_never_ready)))
     = [Run K3dClusterCreate, Run KubectlUseContext,
        Run (HelmRepoAdd IngressNginx), Run (HelmRepoUpdate IngressNginx),
        Run (HelmUpgradeInstall IngressNginx),
        Run (HelmRepoAdd Keda), Run (HelmRepoUpdate Keda), Run (HelmUpgradeInstall Keda),
        Run (KubectlApplyNamespace ''argocd''), Run KubectlApplyArgoInstall,
        Run KubectlWaitArgoServer,
        RunTrap CleanupHandler, ProcessExit (Exiting 1)]"
  by (simp_all add: argocd_never_ready_def fresh_host_def run_defs)

text \<open>
  C5, as the spec states it, fails for the ingress and the autoscaler stages. Their
  scripts contain no wait of their own: the only commands of \<^verbatim>\<open>install_ingress_nginx\<close>
  are two \<^verbatim>\<open>helm repo\<close> commands and the install operation
  \<^verbatim>\<open>helm upgrade --install ... --wait\<close>, and when the controller never becomes
  available it is that install operation which gives up. How long it waits is the
  tool's matter: where helm waits up to 1000 time units and the controller is available
  after 500, the stage waits those 500 time units and succeeds; no bound of 300 is
  enforced by the script.
\<close>

theorem ingress_wait_is_helms:
  "fst (install_ingress_nginx ingress_never_ready) = Exiting 1
   \<and> actions (trace (snd (install_ingress_nginx ingress_never_ready)))
       = [Run (HelmRepoAdd IngressNginx), Run (HelmRepoUpdate IngressNginx),
          Run (HelmUpgradeInstall IngressNginx)]
   \<and> helm_wait_limit slow_ingress = 1000
   \<and> ready_after slow_ingress IngressNginx = Some 500
   \<and> fst (install_ingress_nginx slow_ingress) = Continue
   \<and> clock (snd (install_ingress_nginx slow_ingress)) = clock slow_ingress + 500"
  by (simp add: run_ingress_never_ready run_slow_ingress) (simp add: slow_ingress_def)

text \<open>
  C5, amended: only the GitOps-controller stage has a readiness wait of the script's own,
  a step separate from the install with the fixed bound of 300 time units: if the
  server is not available within 300 time units of the install, the run ends with a
  non-zero status and nothing that follows the wait happens (no read of the secret, no
  tunnel, no later stage; only the EXIT trap). In the ingress and autoscaler stages the
  wait belongs to the install operation and its bound is the tool's: if the controller
  is not available within that bound, the run ends with a non-zero status and no later
  stage runs.
\<close>

theorem readiness_timeouts:
  "(\<not> available_within 300 w ArgoCD \<longrightarrow>
      fst (script w) \<noteq> Continue
      \<and> list_all (\<lambda>e. from_only [CheckPrerequisites, CreateCluster, InstallIngressNginx,
                                  InstallKeda, InstallArgocd, Cleanup, Shell] e
                       \<and> \<not> after_wait e)
          (trace (snd (script w))))
   \<and> (\<not> available_within (helm_wait_limit w) w IngressNginx \<longrightarrow>
        fst (script w) \<noteq> Continue
        \<and> list_all (from_only [CheckPrerequisites, CreateCluster, InstallIngressNginx,
                                Cleanup, Shell])
            (trace (snd (script w))))
   \<and> (\<not> available_within (helm_wait_limit w) w Keda \<longrightarrow>
        fst (script w) \<noteq> Continue
        \<and> list_all (from_only [CheckPrerequisites, CreateCluster, InstallIngressNginx,
                                InstallKeda, Cleanup, Shell])
            (trace (snd (script w))))"
  using script_gives_up_argocd [of w] script_gives_up_ingress [of w] script_gives_up_keda [of w]
  by blast

theorem readiness_timeouts_witness:
  "(\<not> available_within 300 argocd_never_ready ArgoCD
    \<and> fst (script argocd_never_ready) = Exiting 1
    \<and> list_all (\<lambda>e. from_only [CheckPrerequisites, CreateCluster, InstallIngressNginx,
                                InstallKeda, InstallArgocd, Cleanup, Shell] e
                     \<and> \<not> after_wait e)
         (trace (snd (script argocd_never_ready)))
    \<and> last (before_trap (actions (trace (snd (script argocd_never_ready)))))
        = Run KubectlWaitArgoServer)
   \<and> (\<not> available_within (helm_wait_limit ingress_never_ready) ingress_never_ready IngressNginx
    \<and> fst (script ingress_never_ready) = Exiting 1
    \<and> list_all (from_only [CheckPrerequisites, CreateCluster, InstallIngressNginx,
                            Cleanup, Shell])
         (trace (snd (script ingress_never_ready))))
   \<and> (\<not> available_within (helm_wait_limit keda_never_ready) keda_never_ready Keda
    \<and> fst (script keda_never_ready) = Exiting 1
    \<and> list_all (from_only [CheckPrerequisites, CreateCluster, InstallIngressNginx,
                            InstallKeda, Cleanup, Shell])
         (trace (snd (script keda_never_ready))))"
proof -
  have never:
    "\<not> available_within 300 argocd_never_ready ArgoCD"
    "\<not> available_within (helm_wait_limit ingress_never_ready) ingress_never_ready IngressNginx"
    "\<not> available_within (helm_wait_limit keda_never_ready) keda_never_ready Keda"
    by (simp_all add: available_within_def argocd_never_ready_def ingress_never_ready_def
        keda_never_ready_def fresh_host_def)
  with readiness_timeouts [of argocd_never_ready] readiness_timeouts [of ingress_never_ready]
    readiness_timeouts [of keda_never_ready]
  show ?thesis
    by (simp add: run_argocd_never_ready run_ingress_never_ready run_keda_never_ready
        before_trap_def)
qed

section \<open>Extracting the bootstrap credential\<close>

lemma commands_Continue_ConsD:
  assumes "fst (commands (c # cs) w) = Continue"
  shows "fst (c w) = Continue" and "commands (c # cs) w = commands cs (snd (c w))"
proof -
  show 1: "fst (c w) = Continue"
  proof (rule ccontr)
    assume "fst (c w) \<noteq> Continue"
    with assms show False by (simp add: commands_stop)
  qed
  then show "commands (c # cs) w = commands cs (snd (c w))"
    by (rule commands_go)
qed

lemma commands_Continue_appendD:
  assumes "fst (commands (xs @ ys) w) = Continue"
  shows "fst (commands xs w) = Continue"
    and "commands (xs @ ys) w = commands ys (snd (commands xs w))"
proof -
  show 1: "fst (commands xs w) = Continue"
  proof (rule ccontr)
    assume "fst (commands xs w) \<noteq> Continue"
    with assms show False by (simp add: commands_append_stop)
  qed
  then show "commands (xs @ ys) w = commands ys (snd (commands xs w))"
    by (rule commands_append_go)
qed

lemma filter_extends:
  assumes "extends_with A w w'" and "\<And>e. A e \<Longrightarrow> \<not> P e"
  shows "filter P (trace w') = filter P (trace w)"
  using assms by (auto simp: extends_with_def list_all_iff filter_empty_conv)

lemma filter_adds:
  assumes "adds A c" and "\<And>e. A e \<Longrightarrow> \<not> P e"
  shows "filter P (trace (snd (c w))) = filter P (trace w)"
proof -
  from assms(1) have "extends_with A w (snd (c w))"
    by (simp add: adds_def)
  then show ?thesis
    using assms(2) by (rule filter_extends)
qed

lemma stage_keeps_reads:
  assumes "adds (from_only os) c" and "InstallArgocd \<notin> set os"
  shows "filter (\<lambda>e. e = ReadSecret) (trace (snd (c w))) = filter (\<lambda>e. e = ReadSecret) (trace w)"
  using assms(1)
proof (rule filter_adds)
  fix e
  assume "from_only os e"
  with assms(2) show "e \<noteq> ReadSecret" by (cases e) auto
qed

lemma stage_keeps_password_lines:
  assumes "adds (from_only os) c" and "DisplayInfo \<notin> set os"
  shows "filter is_password_line (trace (snd (c w))) = filter is_password_line (trace w)"
  using assms(1)
proof (rule filter_adds)
  fix e
  assume "from_only os e"
  with assms(2) show "\<not> is_password_line e" by (cases e) auto
qed

text \<open>The one read of the secret, and what it leaves in \<^verbatim>\<open>ARGOCD_PASSWORD\<close>.\<close>

lemma read_admin_password_Continue:
  assumes "fst (read_admin_password v) = Continue"
  shows "map_option command_substitution
           (base64_decode v (case secret_data v (secret_reads v + 1) of None \<Rightarrow> [] | Some d \<Rightarrow> d))
           = Some (ARGOCD_PASSWORD (snd (read_admin_password v)))"
    and "filter (\<lambda>e. e = ReadSecret) (trace (snd (read_admin_password v)))
           = filter (\<lambda>e. e = ReadSecret) (trace v) @ [ReadSecret]"
  using assms
  by (auto simp: read_admin_password_def kubectl_get_secret_def emit_def Let_def
      split: option.splits)

lemma command_substitution_empty [simp]: "command_substitution [] = []"
  by (simp add: command_substitution_def)

lemma read_admin_password_absent:
  assumes "secret_data v (secret_reads v + 1) = None" and "base64_decode v [] = Some []"
  shows "read_admin_password v =
           (Continue,
            v\<lparr>secret_reads := secret_reads v + 1, ARGOCD_PASSWORD := [],
              trace := trace v @ [ReadSecret, Stderr secret_not_found]\<rparr>)"
  using assms
  by (simp add: read_admin_password_def kubectl_get_secret_def emit_def Let_def)

lemma install_argocd_credential:
  assumes ok: "fst (install_argocd v) = Continue"
  shows "map_option command_substitution
           (base64_decode v (case secret_data v (secret_reads v + 1) of None \<Rightarrow> [] | Some d \<Rightarrow> d))
           = Some (ARGOCD_PASSWORD (snd (install_argocd v)))"
    and "filter (\<lambda>e. e = ReadSecret) (trace (snd (install_argocd v)))
           = filter (\<lambda>e. e = ReadSecret) (trace v) @ [ReadSecret]"
proof -
  define xs where "xs =
     [log_info (''Installing ArgoCD '' @ ARGOCD_VERSION @ ''...''),
      run_ext (KubectlApplyNamespace ''argocd''),
      run_ext KubectlApplyArgoInstall,
      log_info ''Waiting for ArgoCD to be ready...'',
      kubectl_wait_available 300 ArgoCD]"
  define ys where "ys =
     [log_success ''ArgoCD installed successfully'',
      expand ARGOCD_PASSWORD (\<lambda>p. log_info (''ArgoCD admin password: '' @ p)),
      log_info ''Setting up port forwarding for ArgoCD (localhost:8080)...'',
      start_port_forward,
      log_info ''ArgoCD will be available at https://localhost:8080'',
      log_info (''Port forward PID saved to '' @ PID_FILE)]"
  let ?A = "\<lambda>e. e \<noteq> ReadSecret"
  have split: "install_argocd = commands (xs @ read_admin_password # ys)"
    by (simp add: install_argocd_def xs_def ys_def)
  define w1 where "w1 = snd (commands xs v)"
  define w2 where "w2 = snd (read_admin_password w1)"
  from ok have run1: "commands (xs @ read_admin_password # ys) v = commands (read_admin_password # ys) w1"
    unfolding split w1_def by (rule commands_Continue_appendD(2))
  with ok have ok1: "fst (commands (read_admin_password # ys) w1) = Continue"
    by (simp add: split)
  then have read_ok: "fst (read_admin_password w1) = Continue"
    and run2: "commands (read_admin_password # ys) w1 = commands ys w2"
    unfolding w2_def by (rule commands_Continue_ConsD)+
  have final: "install_argocd v = commands ys w2"
    by (simp add: split run1 run2)
  have xs_keeps: "creds w1 = creds v" "fixed w1 = fixed v"
    unfolding w1_def by (rule keepsD, simp add: xs_def keeps_prims)+
  have xs_quiet: "filter (\<lambda>e. e = ReadSecret) (trace w1) = filter (\<lambda>e. e = ReadSecret) (trace v)"
    unfolding w1_def
    by (rule filter_adds [where A = ?A]) (simp_all add: xs_def adds_prims)
  have ys_keeps: "creds (snd (commands ys w2)) = creds w2"
    by (rule keepsD) (simp add: ys_def keeps_prims)
  have ys_quiet: "filter (\<lambda>e. e = ReadSecret) (trace (snd (commands ys w2)))
                    = filter (\<lambda>e. e = ReadSecret) (trace w2)"
    by (rule filter_adds [where A = ?A]) (simp_all add: ys_def adds_prims)
  from read_admin_password_Continue [OF read_ok]
  have "map_option command_substitution
          (base64_decode w1 (case secret_data w1 (secret_reads w1 + 1) of None \<Rightarrow> [] | Some d \<Rightarrow> d))
          = Some (ARGOCD_PASSWORD w2)"
    and tr2: "filter (\<lambda>e. e = ReadSecret) (trace w2)
                = filter (\<lambda>e. e = ReadSecret) (trace w1) @ [ReadSecret]"
    by (simp_all add: w2_def)
  moreover have "secret_data w1 = secret_data v" "secret_reads w1 = secret_reads v"
    "base64_decode w1 = base64_decode v"
    using xs_keeps by (simp_all add: creds_def fixed_def)
  moreover have "ARGOCD_PASSWORD (snd (commands ys w2)) = ARGOCD_PASSWORD w2"
    using ys_keeps by (simp add: creds_def)
  ultimately show "map_option command_substitution
           (base64_decode v (case secret_data v (secret_reads v + 1) of None \<Rightarrow> [] | Some d \<Rightarrow> d))
           = Some (ARGOCD_PASSWORD (snd (install_argocd v)))"
    by (simp add: final)
  show "filter (\<lambda>e. e = ReadSecret) (trace (snd (install_argocd v)))
           = filter (\<lambda>e. e = ReadSecret) (trace v) @ [ReadSecret]"
    by (simp add: final ys_quiet tr2 xs_quiet)
qed

lemma display_info_password:
  "fst (display_info v) = Continue"
  "filter is_password_line (trace (snd (display_info v)))
     = filter is_password_line (trace v) @ [password_line (ARGOCD_PASSWORD v)]"
proof -
  define xs where "xs =
     [log_success ''k3d cluster setup completed successfully!'',
      echo [],
      log_info ''Cluster Information:'',
      echo (''  Cluster Name: '' @ CLUSTER_NAME),
      echo (''  Kubectl Context: k3d-'' @ CLUSTER_NAME),
      echo ''  Ingress-NGINX: Installed'',
      echo ''  KEDA: Installed'',
      echo ''  ArgoCD: Installed'',
      echo [],
      log_info ''Access Information:'',
      echo ''  ArgoCD UI: https://localhost:8080'',
      echo ''  ArgoCD Username: admin'']"
  define ys where "ys =
     [echo [],
      log_info ''Useful Commands:'',
      echo ''  View cluster: k3d cluster list'',
      echo (''  Delete cluster: k3d cluster delete '' @ CLUSTER_NAME),
      echo (''  Stop port forward: kill $(cat '' @ PID_FILE @ '')''),
      echo ''  View ArgoCD apps: kubectl get applications -n argocd'',
      echo ''  View pods: kubectl get pods -n contract-analyzer'',
      echo []]"
  define c where "c = expand ARGOCD_PASSWORD (\<lambda>p. echo (''  ArgoCD Password: '' @ p))"
  let ?A = "\<lambda>e. \<not> is_password_line e \<and> \<not> is_warning_or_error e \<and> e \<noteq> ReadSecret"
  have split: "display_info = commands (xs @ c # ys)"
    by (simp add: display_info_def xs_def ys_def c_def)
  have cont: "fst (commands cs u) = Continue" if "list_all (\<lambda>c. \<forall>u. fst (c u) = Continue) cs"
    for cs u
    using that by (induction cs arbitrary: u) (simp_all add: commands_go)
  have xs_ok: "fst (commands xs u) = Continue" for u
    by (rule cont) (simp add: xs_def echo_def log_info_def log_success_def)
  have ys_ok: "fst (commands ys u) = Continue" for u
    by (rule cont) (simp add: ys_def echo_def log_info_def log_success_def)
  have c_ok: "fst (c u) = Continue" for u
    by (simp add: c_def expand_def echo_def)
  have run: "display_info v = commands ys (snd (c (snd (commands xs v))))"
    by (simp add: split commands_append_go xs_ok commands_go c_ok)
  then show "fst (display_info v) = Continue"
    by (simp add: ys_ok)
  have xs_quiet: "filter is_password_line (trace (snd (commands xs v))) = filter is_password_line (trace v)"
    by (rule filter_adds [where A = ?A]) (simp_all add: xs_def adds_prims CLUSTER_NAME_def)
  have ys_quiet: "filter is_password_line (trace (snd (commands ys u))) = filter is_password_line (trace u)"
    for u
    by (rule filter_adds [where A = ?A]) (simp_all add: ys_def adds_prims CLUSTER_NAME_def)
  have "creds (snd (commands xs v)) = creds v"
    by (rule keepsD) (simp add: xs_def keeps_prims)
  then have pw: "ARGOCD_PASSWORD (snd (commands xs v)) = ARGOCD_PASSWORD v"
    by (simp add: creds_def)
  show "filter is_password_line (trace (snd (display_info v)))
     = filter is_password_line (trace v) @ [password_line (ARGOCD_PASSWORD v)]"
  proof -
    have "trace (snd (c u)) = trace u @ [password_line (ARGOCD_PASSWORD u)]" for u
      by (simp add: c_def expand_def echo_def emit_def password_line_def)
    moreover have "is_password_line (password_line p)" for p
      unfolding password_line_def is_password_line.simps by (rule starts_with_prefix)
    ultimately show ?thesis
      by (simp add: run ys_quiet xs_quiet pw del: is_password_line.simps)
  qed
qed

lemma main_success_credential:
  assumes ok: "fst (main (armed w)) = Continue"
  shows "filter (\<lambda>e. e = ReadSecret) (trace (snd (main (armed w)))) = [ReadSecret]"
    and "map_option command_substitution (base64_decode w (first_secret_output w))
           = Some (ARGOCD_PASSWORD (snd (main (armed w))))"
    and "filter is_password_line (trace (snd (main (armed w))))
           = [password_line (ARGOCD_PASSWORD (snd (main (armed w))))]"
proof -
  let ?R = "\<lambda>v. filter (\<lambda>e. e = ReadSecret) (trace v)"
  let ?P = "\<lambda>v. filter is_password_line (trace v)"
  define pre where "pre =
     [log_info ''Starting k3d bootstrap for ContractAnalyzer...'',
      call check_prerequisites, call create_cluster, call install_ingress_nginx,
      call install_keda]"
  define done_msg where "done_msg = log_success ''Bootstrap completed!''"
  have split: "main = commands (pre @ [call install_argocd, call deploy_application,
                                       call display_info, done_msg])"
    by (simp add: main_def pre_def done_msg_def)
  define w1 where "w1 = snd (commands pre (armed w))"
  define w2 where "w2 = snd (install_argocd w1)"
  define w3 where "w3 = snd (deploy_application w2)"
  define w4 where "w4 = snd (display_info w3)"
  define w5 where "w5 = snd (done_msg w4)"
  note nr = never_returns_stages
  from ok have r1: "main (armed w) = commands [call install_argocd, call deploy_application,
                                               call display_info, done_msg] w1"
    unfolding split w1_def by (rule commands_Continue_appendD(2))
  with ok have ok1: "fst (commands [call install_argocd, call deploy_application,
                                    call display_info, done_msg] w1) = Continue"
    by simp
  from commands_Continue_ConsD [OF ok1]
  have s2: "fst (install_argocd w1) = Continue"
    and r2: "main (armed w) = commands [call deploy_application, call display_info, done_msg] w2"
    by (simp_all add: r1 call_id nr w2_def)
  from ok r2 have ok2: "fst (commands [call deploy_application, call display_info, done_msg] w2)
                         = Continue"
    by simp
  from commands_Continue_ConsD [OF ok2]
  have r3: "main (armed w) = commands [call display_info, done_msg] w3"
    by (simp add: r2 snd_call w3_def)
  from ok r3 have ok3: "fst (commands [call display_info, done_msg] w3) = Continue"
    by simp
  from commands_Continue_ConsD [OF ok3]
  have r4: "main (armed w) = commands [done_msg] w4"
    by (simp add: r3 snd_call w4_def)
  then have r5: "snd (main (armed w)) = w5"
    by (simp add: commands_single w5_def)
  have "adds (from_only [CheckPrerequisites, CreateCluster, InstallIngressNginx, InstallKeda])
          (commands pre)"
    unfolding pre_def
    by (simp add: adds_prims adds_stage_in [OF adds_check_prerequisites]
        adds_stage_in [OF adds_create_cluster] adds_stage_in [OF adds_install_ingress_nginx]
        adds_stage_in [OF adds_install_keda])
  then have t1: "?R w1 = []" "?P w1 = []"
    using stage_keeps_reads [where c = "commands pre" and w = "armed w"]
      stage_keeps_password_lines [where c = "commands pre" and w = "armed w"]
    by (simp_all add: w1_def)
  have "keeps creds (commands pre)" "keeps fixed (commands pre)"
    by (simp_all add: pre_def keeps_prims keeps_stages)
  then have k1: "secret_reads w1 = 0" "secret_data w1 = secret_data w"
    "base64_decode w1 = base64_decode w"
    using keepsD [of creds "commands pre" "armed w"] keepsD [of fixed "commands pre" "armed w"]
    by (simp_all add: w1_def creds_def fixed_def)
  from install_argocd_credential [OF s2] k1 t1
  have c2: "map_option command_substitution (base64_decode w (first_secret_output w))
              = Some (ARGOCD_PASSWORD w2)"
    and t2: "?R w2 = [ReadSecret]"
    by (simp_all add: w2_def first_secret_output_def)
  have p2: "?P w2 = []"
    using stage_keeps_password_lines [OF adds_install_argocd, where w = w1] t1
    by (simp add: w2_def)
  have k3: "ARGOCD_PASSWORD w3 = ARGOCD_PASSWORD w2"
    using keepsD [OF keeps_deploy_application(3), of w2] by (simp add: w3_def creds_def)
  have t3: "?R w3 = [ReadSecret]" "?P w3 = []"
    using stage_keeps_reads [OF adds_deploy_application, where w = w2]
      stage_keeps_password_lines [OF adds_deploy_application, where w = w2] t2 p2
    by (simp_all add: w3_def)
  have k4: "ARGOCD_PASSWORD w4 = ARGOCD_PASSWORD w3"
    using keepsD [OF keeps_display_info(3), of w3] by (simp add: w4_def creds_def)
  have t4: "?R w4 = [ReadSecret]"
    using stage_keeps_reads [OF adds_display_info, where w = w3] t3
    by (simp add: w4_def)
  have p4: "?P w4 = [password_line (ARGOCD_PASSWORD w3)]"
    using display_info_password(2) [of w3] t3 by (simp add: w4_def)
  have k5: "ARGOCD_PASSWORD w5 = ARGOCD_PASSWORD w4" "?R w5 = ?R w4" "?P w5 = ?P w4"
    by (simp_all add: w5_def done_msg_def log_success_def emit_def)
  show "filter (\<lambda>e. e = ReadSecret) (trace (snd (main (armed w)))) = [ReadSecret]"
    by (simp add: r5 k5 t4)
  show "map_option command_substitution (base64_decode w (first_secret_output w))
          = Some (ARGOCD_PASSWORD (snd (main (armed w))))"
    by (simp add: r5 k5 k4 k3 c2)
  show "filter is_password_line (trace (snd (main (armed w))))
           = [password_line (ARGOCD_PASSWORD (snd (main (armed w))))]"
    by (simp add: r5 k5 k4 k3 p4 del: is_password_line.simps)
qed

lemma script_password: "ARGOCD_PASSWORD (snd (script w)) = ARGOCD_PASSWORD (snd (main (armed w)))"
  by (simp add: script_eq shell_exit_trap(3) [OF trap_exit_main])

lemma quiet_stage:
  "list_all (\<lambda>e. \<not> is_warning_or_error e) (drop (length (trace v)) (trace (snd (install_argocd v))))"
  "list_all (\<lambda>e. \<not> is_warning_or_error e) (drop (length (trace v)) (trace (snd (display_info v))))"
proof -
  have "adds (\<lambda>e. \<not> is_warning_or_error e) install_argocd"
    unfolding install_argocd_def by (simp add: adds_prims)
  from addsD [OF this, of v]
  show "list_all (\<lambda>e. \<not> is_warning_or_error e)
          (drop (length (trace v)) (trace (snd (install_argocd v))))"
    by auto
  have "adds (\<lambda>e. \<not> is_warning_or_error e) display_info"
    unfolding display_info_def by (simp add: adds_prims)
  from addsD [OF this, of v]
  show "list_all (\<lambda>e. \<not> is_warning_or_error e)
          (drop (length (trace v)) (trace (snd (display_info v))))"
    by auto
qed

subsection \<open>Runs that complete\<close>

text \<open>
  On a host where nothing stands in the way, every stage completes; the
  credential step needs only that \<^verbatim>\<open>base64 -d\<close> accepts what the read printed.
\<close>

lemma commands_complete:
  assumes "I w"
    and "\<And>c v. c \<in> set cs \<Longrightarrow> I v \<Longrightarrow> fst (c v) = Continue \<and> I (snd (c v))"
  shows "fst (commands cs w) = Continue \<and> I (snd (commands cs w))"
  using assms
proof (induction cs arbitrary: w)
  case Nil
  then show ?case by simp
next
  case (Cons c cs)
  have step: "fst (c w) = Continue \<and> I (snd (c w))"
    using Cons.prems by simp
  have "fst (commands cs (snd (c w))) = Continue \<and> I (snd (commands cs (snd (c w))))"
    by (rule Cons.IH) (use step Cons.prems(2) in simp_all)
  with step show ?case by (simp add: commands_go)
qed

lemma all_succeed_fixed: "fixed v = fixed w \<Longrightarrow> all_succeed v = all_succeed w"
  by (simp add: all_succeed_def fixed_def available_within_def)

lemma all_succeed_armed: "all_succeed (armed w) = all_succeed w"
  by (simp add: all_succeed_def)

lemma check_prerequisites_completes:
  assumes "all_succeed v"
  shows "fst (check_prerequisites v) = Continue"
proof -
  from assms have "find (\<lambda>t. \<not> installed v t) required_tools = None"
    by (simp add: all_succeed_def required_tools_def)
  then show ?thesis
    by (simp add: check_prerequisites_result)
qed

lemma create_cluster_completes:
  assumes "all_succeed v"
  shows "fst (create_cluster v) = Continue"
proof -
  from assms have out: "outcome_of v K3dClusterDelete = Succeeds"
    "outcome_of v K3dClusterCreate = Succeeds" "outcome_of v KubectlUseContext = Succeeds"
    by (simp_all add: all_succeed_def script_commands_def)
  have free: "CLUSTER_NAME \<notin> fst ` {x \<in> set (clusters v). fst x \<noteq> CLUSTER_NAME}"
    by auto
  show ?thesis
  proof (cases "grep_q CLUSTER_NAME (k3d_cluster_list v)")
    case True
    then show ?thesis
      by (simp add: create_cluster_def commands.simps if_then_def prim_defs out free
          k3d_cluster_list_def)
  next
    case False
    then have "CLUSTER_NAME \<notin> set (map fst (clusters v))"
      using grep_q_member [of CLUSTER_NAME "k3d_cluster_list v"]
      by (auto simp: k3d_cluster_list_def)
    with False show ?thesis
      by (simp add: create_cluster_def commands.simps if_then_def prim_defs out
          k3d_cluster_list_def)
  qed
qed

lemma install_helm_completes:
  assumes "all_succeed v"
  shows "fst (install_ingress_nginx v) = Continue" and "fst (install_keda v) = Continue"
  using assms
  by (auto simp: install_ingress_nginx_def install_keda_def commands.simps prim_defs
      all_succeed_def script_commands_def available_within_def split: option.splits)

lemma install_argocd_completes:
  assumes "all_succeed v"
    and "base64_decode v (case secret_data v (secret_reads v + 1) of None \<Rightarrow> [] | Some d \<Rightarrow> d)
           \<noteq> None"
  shows "fst (install_argocd v) = Continue"
  using assms
  by (auto simp: install_argocd_def commands.simps prim_defs expand_def Let_def
      all_succeed_def script_commands_def available_within_def split: option.splits)

lemma deploy_application_completes:
  assumes "all_succeed v"
  shows "fst (deploy_application v) = Continue"
  using assms
  by (simp add: deploy_application_def commands.simps if_then_else_def prim_defs
      all_succeed_def script_commands_def)

lemma main_completes:
  assumes ok: "all_succeed w"
    and decodes: "base64_decode w (first_secret_output w) \<noteq> None"
  shows "fst (main (armed w)) = Continue"
proof -
  define pre where "pre =
     [log_info ''Starting k3d bootstrap for ContractAnalyzer...'',
      call check_prerequisites, call create_cluster, call install_ingress_nginx,
      call install_keda]"
  define post where "post =
     [call deploy_application, call display_info, log_success ''Bootstrap completed!'']"
  define I where "I = (\<lambda>v. fixed v = fixed (armed w) \<and> creds v = creds (armed w))"
  define J where "J = (\<lambda>v. fixed v = fixed (armed w))"
  have split: "main = commands (pre @ call install_argocd # post)"
    by (simp add: main_def pre_def post_def)
  have good: "all_succeed v" if "fixed v = fixed (armed w)" for v
    using all_succeed_fixed [OF that] ok by (simp add: all_succeed_armed)
  have stage: "fst (call f v) = Continue \<and> I (snd (call f v))"
    if "I v" "keeps fixed f" "keeps creds f" "all_succeed v \<Longrightarrow> fst (f v) = Continue" for f v
  proof -
    from that(1) have "all_succeed v"
      by (simp add: I_def good)
    then have "fst (f v) = Continue"
      by (rule that(4))
    then have "fst (call f v) = Continue"
      by (cases "f v") (simp add: call_def)
    moreover have "I (snd (call f v))"
      using that(1) keepsD [OF that(2), of v] keepsD [OF that(3), of v]
      by (simp add: I_def snd_call)
    ultimately show ?thesis ..
  qed
  have first: "fst (log_info m v) = Continue \<and> I (snd (log_info m v))" if "I v" for m v
    using that by (simp add: I_def log_info_def emit_def fixed_def creds_def)
  have "fst (commands pre (armed w)) = Continue \<and> I (snd (commands pre (armed w)))"
  proof (rule commands_complete [where I = I])
    show "I (armed w)"
      by (simp add: I_def)
  next
    fix c v
    assume c: "c \<in> set pre" and v: "I v"
    from c consider "c = log_info ''Starting k3d bootstrap for ContractAnalyzer...''"
      | "c = call check_prerequisites" | "c = call create_cluster"
      | "c = call install_ingress_nginx" | "c = call install_keda"
      by (auto simp: pre_def)
    then show "fst (c v) = Continue \<and> I (snd (c v))"
    proof cases
      case 1
      with v show ?thesis by (simp add: first)
    next
      case 2
      show ?thesis
        unfolding 2
        by (rule stage [OF v keeps_check_prerequisites(1) keeps_check_prerequisites(3)])
           (rule check_prerequisites_completes)
    next
      case 3
      show ?thesis
        unfolding 3
        by (rule stage [OF v keeps_create_cluster(1) keeps_create_cluster(3)])
           (rule create_cluster_completes)
    next
      case 4
      show ?thesis
        unfolding 4
        by (rule stage [OF v keeps_install_ingress_nginx(1) keeps_install_ingress_nginx(3)])
           (rule install_helm_completes(1))
    next
      case 5
      show ?thesis
        unfolding 5
        by (rule stage [OF v keeps_install_keda(1) keeps_install_keda(3)])
           (rule install_helm_completes(2))
    qed
  qed
  then have pre_ok: "fst (commands pre (armed w)) = Continue"
    and pre_I: "I (snd (commands pre (armed w)))"
    by simp_all
  define w1 where "w1 = snd (commands pre (armed w))"
  have w1: "fixed w1 = fixed (armed w)" "secret_reads w1 = 0" "secret_data w1 = secret_data w"
    "base64_decode w1 = base64_decode w"
    using pre_I by (simp_all add: I_def w1_def fixed_def creds_def)
  have "fst (install_argocd w1) = Continue"
    by (rule install_argocd_completes)
       (use decodes in \<open>simp_all add: good w1 first_secret_output_def\<close>)
  then have argo_ok: "fst (call install_argocd w1) = Continue"
    by (simp add: call_id never_returns_stages)
  define w2 where "w2 = snd (call install_argocd w1)"
  have w2: "J w2"
    using keepsD [OF keeps_install_argocd, of w1] w1(1) by (simp add: J_def w2_def snd_call)
  have later: "fst (call f v) = Continue \<and> J (snd (call f v))"
    if "J v" "keeps fixed f" "all_succeed v \<Longrightarrow> fst (f v) = Continue" for f v
  proof -
    from that(1) have "all_succeed v"
      by (simp add: J_def good)
    then have "fst (f v) = Continue"
      by (rule that(3))
    then have "fst (call f v) = Continue"
      by (cases "f v") (simp add: call_def)
    moreover have "J (snd (call f v))"
      using that(1) keepsD [OF that(2), of v] by (simp add: J_def snd_call)
    ultimately show ?thesis ..
  qed
  have "fst (commands post w2) = Continue \<and> J (snd (commands post w2))"
  proof (rule commands_complete [where I = J])
    show "J w2" by (rule w2)
  next
    fix c v
    assume c: "c \<in> set post" and v: "J v"
    from c consider "c = call deploy_application" | "c = call display_info"
      | "c = log_success ''Bootstrap completed!''"
      by (auto simp: post_def)
    then show "fst (c v) = Continue \<and> J (snd (c v))"
    proof cases
      case 1
      show ?thesis
        unfolding 1
        by (rule later [OF v keeps_deploy_application(1)]) (rule deploy_application_completes)
    next
      case 2
      show ?thesis
        unfolding 2
        by (rule later [OF v keeps_display_info(1)]) (rule display_info_password(1))
    next
      case 3
      with v show ?thesis
        by (simp add: J_def log_success_def emit_def fixed_def)
    qed
  qed
  then have post_ok: "fst (commands post w2) = Continue"
    by simp
  have "main (armed w) = commands (call install_argocd # post) w1"
    by (simp add: split commands_append_go [OF pre_ok] w1_def)
  also have "\<dots> = commands post w2"
    using argo_ok by (simp add: commands_go w2_def)
  finally show ?thesis
    by (simp add: post_ok)
qed

lemma run_late_secret:
  "fst (script late_secret) = Continue"
  "ARGOCD_PASSWORD (snd (script late_secret)) = []"
  "actions (trace (snd (script late_secret))) =
     [Run K3dClusterCreate, Run KubectlUseContext,
      Run (HelmRepoAdd IngressNginx), Run (HelmRepoUpdate IngressNginx),
      Run (HelmUpgradeInstall IngressNginx),
      Run (HelmRepoAdd Keda), Run (HelmRepoUpdate Keda), Run (HelmUpgradeInstall Keda),
      Run (KubectlApplyNamespace ''argocd''), Run KubectlApplyArgoInstall,
      Run KubectlWaitArgoServer, ReadSecret, Stderr secret_not_found, Spawn 100, WritePid 100,
      Run (KubectlApplyNamespace ''contract-analyzer''), Run KubectlApplyApp, Run Sleep,
      RunTrap CleanupHandler, Kill 100, RemovePid, ProcessExit Continue]"
  "filter is_password_line (trace (snd (script late_secret))) = [password_line []]"
  by (simp_all add: late_secret_def fresh_host_def run_defs password_line_def)

lemma run_fresh_host_password:
  "ARGOCD_PASSWORD (snd (script fresh_host)) = ''pass''"
  "filter is_password_line (trace (snd (script fresh_host))) = [password_line ''pass'']"
  by (simp_all add: fresh_host_def run_defs password_line_def)

lemma all_succeed_hosts: "all_succeed fresh_host" "all_succeed late_secret"
  by (simp_all add: all_succeed_def required_tools_def script_commands_def
      available_within_def fresh_host_def late_secret_def)

text \<open>
  C6, as the spec states it, fails: the script reads the admin secret once and does not
  poll. Where the secret appears only at the third read, the one read of the script
  finds nothing (\<^verbatim>\<open>kubectl\<close> complains on the standard error), \<^verbatim>\<open>ARGOCD_PASSWORD\<close>
  is left empty, the run goes on to its successful end, and the report prints an empty
  password instead of \<^verbatim>\<open>pass\<close>.
\<close>

theorem late_secret_is_missed:
  "secret_data late_secret 1 = None
   \<and> secret_data late_secret 3 = Some ''cGFzcw==''
   \<and> map_option command_substitution (base64_decode late_secret ''cGFzcw=='') = Some ''pass''
   \<and> fst (script late_secret) = Continue
   \<and> actions (trace (snd (script late_secret))) =
       [Run K3dClusterCreate, Run KubectlUseContext,
        Run (HelmRepoAdd IngressNginx), Run (HelmRepoUpdate IngressNginx),
        Run (HelmUpgradeInstall IngressNginx),
        Run (HelmRepoAdd Keda), Run (HelmRepoUpdate Keda), Run (HelmUpgradeInstall Keda),
        Run (KubectlApplyNamespace ''argocd''), Run KubectlApplyArgoInstall,
        Run KubectlWaitArgoServer, ReadSecret, Stderr secret_not_found, Spawn 100, WritePid 100,
        Run (KubectlApplyNamespace ''contract-analyzer''), Run KubectlApplyApp, Run Sleep,
        RunTrap CleanupHandler, Kill 100, RemovePid, ProcessExit Continue]
   \<and> filter is_password_line (trace (snd (script late_secret))) = [password_line []]"
  by (simp add: run_late_secret)
     (simp add: late_secret_def fresh_host_def base64_answers_def command_substitution_def)

text \<open>
  C6, amended: the admin secret is read exactly once (no polling). In every run that
  completes, \<^verbatim>\<open>ARGOCD_PASSWORD\<close> is what the command substitution makes of the
  decoding of what that one read printed, and the report shows exactly that value. So
  a secret that is present at that moment is displayed. A secret that is absent then
  does not stop the run: the read of line 140 succeeds with an empty password, the only
  trace of the failure being the message of \<^verbatim>\<open>kubectl\<close> itself, and on a host
  where everything else succeeds the run completes and the report shows an empty
  password. More generally the run completes on such a host whenever
  \<^verbatim>\<open>base64 -d\<close> accepts what the read printed. Neither \<^verbatim>\<open>install_argocd\<close> nor
  \<^verbatim>\<open>display_info\<close> ever prints a warning or an error line through the logging
  functions of the script.
\<close>

theorem credential_read_once:
  "(fst (script w) = Continue \<longrightarrow>
      filter (\<lambda>e. e = ReadSecret) (trace (snd (script w))) = [ReadSecret]
      \<and> map_option command_substitution (base64_decode w (first_secret_output w))
          = Some (ARGOCD_PASSWORD (snd (script w)))
      \<and> filter is_password_line (trace (snd (script w)))
          = [password_line (ARGOCD_PASSWORD (snd (script w)))])
   \<and> (all_succeed w \<and> base64_decode w (first_secret_output w) \<noteq> None \<longrightarrow>
        fst (script w) = Continue)
   \<and> (all_succeed w \<and> secret_data w 1 = None \<and> base64_decode w [] = Some [] \<longrightarrow>
        fst (script w) = Continue
        \<and> ARGOCD_PASSWORD (snd (script w)) = []
        \<and> filter is_password_line (trace (snd (script w))) = [password_line []])
   \<and> (secret_data v (secret_reads v + 1) = None \<and> base64_decode v [] = Some [] \<longrightarrow>
        read_admin_password v =
          (Continue,
           v\<lparr>secret_reads := secret_reads v + 1, ARGOCD_PASSWORD := [],
             trace := trace v @ [ReadSecret, Stderr secret_not_found]\<rparr>))
   \<and> list_all (\<lambda>e. \<not> is_warning_or_error e)
        (drop (length (trace v)) (trace (snd (install_argocd v))))
   \<and> list_all (\<lambda>e. \<not> is_warning_or_error e)
        (drop (length (trace v)) (trace (snd (display_info v))))"
proof -
  have completed:
    "filter (\<lambda>e. e = ReadSecret) (trace (snd (script w))) = [ReadSecret]
      \<and> map_option command_substitution (base64_decode w (first_secret_output w))
          = Some (ARGOCD_PASSWORD (snd (script w)))
      \<and> filter is_password_line (trace (snd (script w)))
          = [password_line (ARGOCD_PASSWORD (snd (script w)))]"
    if "fst (script w) = Continue"
  proof -
    from that have ok: "fst (main (armed w)) = Continue"
      by (simp add: script_status_main)
    have tail: "filter (\<lambda>e. e = ReadSecret) (cleanup_events u) = []"
      "filter is_password_line (cleanup_events u) = []" for u
      by (simp_all add: cleanup_events_def split: option.split)
    have tail2: "\<not> is_password_line (RunTrap h)" "\<not> is_password_line (ProcessExit st)" for h st
      by simp_all
    from main_success_credential [OF ok] show ?thesis
      by (auto simp: script_trace_main script_password tail tail2
          simp del: is_password_line.simps)
  qed
  have completes: "fst (script w) = Continue"
    if "all_succeed w \<and> base64_decode w (first_secret_output w) \<noteq> None"
    using that main_completes [of w] by (simp add: script_status_main)
  have absent: "fst (script w) = Continue
        \<and> ARGOCD_PASSWORD (snd (script w)) = []
        \<and> filter is_password_line (trace (snd (script w))) = [password_line []]"
    if "all_succeed w \<and> secret_data w 1 = None \<and> base64_decode w [] = Some []"
  proof -
    from that have out: "first_secret_output w = []"
      by (simp add: first_secret_output_def)
    with that have run: "fst (script w) = Continue"
      by (intro completes) simp
    from completed [OF run] that out have "ARGOCD_PASSWORD (snd (script w)) = []"
      by simp
    with completed [OF run] run show ?thesis
      by simp
  qed
  have line: "read_admin_password v =
          (Continue,
           v\<lparr>secret_reads := secret_reads v + 1, ARGOCD_PASSWORD := [],
             trace := trace v @ [ReadSecret, Stderr secret_not_found]\<rparr>)"
    if "secret_data v (secret_reads v + 1) = None \<and> base64_decode v [] = Some []"
    using that by (intro read_admin_password_absent) simp_all
  from completed completes absent line quiet_stage [of v] show ?thesis
    by blast
qed

theorem credential_read_once_witness:
  "(all_succeed fresh_host
    \<and> first_secret_output fresh_host = ''cGFzcw==''
    \<and> base64_decode fresh_host ''cGFzcw=='' = Some ''pass''
    \<and> fst (script fresh_host) = Continue
    \<and> ARGOCD_PASSWORD (snd (script fresh_host)) = ''pass''
    \<and> filter is_password_line (trace (snd (script fresh_host)))
        = [password_line ''pass''])
   \<and> (all_succeed late_secret
    \<and> secret_data late_secret 1 = None
    \<and> base64_decode late_secret [] = Some []
    \<and> fst (script late_secret) = Continue
    \<and> ARGOCD_PASSWORD (snd (script late_secret)) = []
    \<and> filter (\<lambda>e. e = ReadSecret) (trace (snd (script late_secret))) = [ReadSecret]
    \<and> filter is_password_line (trace (snd (script late_secret))) = [password_line []]
    \<and> read_admin_password late_secret =
        (Continue,
         late_secret\<lparr>secret_reads := 1, ARGOCD_PASSWORD := [],
                      trace := [ReadSecret, Stderr secret_not_found]\<rparr>))"
proof -
  have facts: "first_secret_output fresh_host = ''cGFzcw==''"
    "base64_decode fresh_host ''cGFzcw=='' = Some ''pass''"
    "secret_data late_secret 1 = None" "base64_decode late_secret [] = Some []"
    "secret_reads late_secret = 0" "trace late_secret = []"
    "first_secret_output late_secret = []" "secret_data late_secret (Suc 0) = None"
    by (simp_all add: first_secret_output_def fresh_host_def late_secret_def base64_answers_def)
  from credential_read_once [of fresh_host fresh_host]
    credential_read_once [of late_secret late_secret]
  show ?thesis
    by (simp add: facts all_succeed_hosts run_fresh_host_password command_substitution_def
        del: is_password_line.simps)
qed

section \<open>The finalizer: \<^verbatim>\<open>trap cleanup EXIT\<close>\<close>

text \<open>
  The handle file and the processes when \<^verbatim>\<open>main\<close> has ended: if the tunnel was
  spawned, it was spawned once, it is running, and the handle file names it.
\<close>

lemma install_argocd_spawns:
  "filter is_spawn (trace (snd (install_argocd v)))
     = filter is_spawn (trace v)
       @ (if fst (install_argocd v) = Continue then [Spawn (next_pid v)] else [])"
proof -
  define xs where "xs =
     [log_info (''Installing ArgoCD '' @ ARGOCD_VERSION @ ''...''),
      run_ext (KubectlApplyNamespace ''argocd''),
      run_ext KubectlApplyArgoInstall,
      log_info ''Waiting for ArgoCD to be ready...'',
      kubectl_wait_available 300 ArgoCD,
      read_admin_password,
      log_success ''ArgoCD installed successfully'',
      expand ARGOCD_PASSWORD (\<lambda>p. log_info (''ArgoCD admin password: '' @ p)),
      log_info ''Setting up port forwarding for ArgoCD (localhost:8080)...'']"
  define ys where "ys =
     [start_port_forward,
      log_info ''ArgoCD will be available at https://localhost:8080'',
      log_info (''Port forward PID saved to '' @ PID_FILE)]"
  have split: "install_argocd = commands (xs @ ys)"
    by (simp add: install_argocd_def xs_def ys_def)
  have xs_quiet: "filter is_spawn (trace (snd (commands xs v))) = filter is_spawn (trace v)"
    by (rule filter_adds [where A = "\<lambda>e. \<not> is_spawn e"]) (simp_all add: xs_def adds_prims)
  have "keeps procs (commands xs)"
    by (simp add: xs_def keeps_prims)
  then have xs_pid: "next_pid (snd (commands xs v)) = next_pid v"
    using keepsD [of procs "commands xs" v] by (simp add: procs_def next_pid_def)
  have ys_run: "fst (commands ys u) = Continue"
    "filter is_spawn (trace (snd (commands ys u))) = filter is_spawn (trace u) @ [Spawn (next_pid u)]"
    for u
    by (simp_all add: ys_def commands.simps prim_defs)
  show ?thesis
  proof (cases "fst (commands xs v) = Continue")
    case True
    then have "install_argocd v = commands ys (snd (commands xs v))"
      by (simp add: split commands_append_go)
    then show ?thesis
      by (simp add: ys_run xs_quiet xs_pid)
  next
    case False
    then have "install_argocd v = commands xs v"
      by (simp add: split commands_append_stop)
    with False show ?thesis
      by (simp add: xs_quiet)
  qed
qed

lemma main_tunnel:
  assumes "list_ex is_spawn (trace (snd (main (armed w))))"
  shows "filter is_spawn (trace (snd (main (armed w)))) = [Spawn (next_pid w)]"
    and "pidfile (snd (main (armed w))) = Some (next_pid w)"
    and "alive (snd (main (armed w))) = insert (next_pid w) (alive w)"
proof -
  let ?S = "\<lambda>v. filter is_spawn (trace v)"
  define pre where "pre =
     [log_info ''Starting k3d bootstrap for ContractAnalyzer...'',
      call check_prerequisites, call create_cluster, call install_ingress_nginx,
      call install_keda]"
  define post where "post =
     [call deploy_application, call display_info, log_success ''Bootstrap completed!'']"
  have split: "main = commands (pre @ call install_argocd # post)"
    by (simp add: main_def pre_def post_def)
  define w1 where "w1 = snd (commands pre (armed w))"
  define w2 where "w2 = snd (install_argocd w1)"
  have no_spawn: "\<not> is_spawn e" if "from_only os e" "InstallArgocd \<notin> set os" for os e
    using that by (cases e) auto
  have pre_adds: "adds (from_only [CheckPrerequisites, CreateCluster, InstallIngressNginx,
                                   InstallKeda]) (commands pre)"
    unfolding pre_def
    by (simp add: adds_prims adds_stage_in [OF adds_check_prerequisites]
        adds_stage_in [OF adds_create_cluster] adds_stage_in [OF adds_install_ingress_nginx]
        adds_stage_in [OF adds_install_keda])
  have s1: "?S w1 = []"
    unfolding w1_def using filter_adds [OF pre_adds, of is_spawn "armed w"]
    by (simp add: no_spawn)
  have "keeps procs (commands pre)"
    by (simp add: pre_def keeps_prims keeps_stages)
  then have "procs w1 = procs (armed w)"
    unfolding w1_def by (rule keepsD)
  then have p1: "next_pid w1 = next_pid w" "alive w1 = alive w"
    by (simp_all add: procs_def next_pid_def)
  have post_adds: "adds (from_only [DeployApplication, DisplayInfo]) (commands post)"
    unfolding post_def
    by (simp add: adds_prims adds_stage_in [OF adds_deploy_application]
        adds_stage_in [OF adds_display_info])
  have post_keeps: "keeps procs (commands post)"
    by (simp add: post_def keeps_prims keeps_stages)
  have spawned: "fst (commands pre (armed w)) = Continue \<and> fst (install_argocd w1) = Continue"
  proof (rule ccontr)
    assume "\<not> ?thesis"
    then consider "fst (commands pre (armed w)) \<noteq> Continue"
      | "fst (commands pre (armed w)) = Continue" "fst (install_argocd w1) \<noteq> Continue"
      by blast
    then have "?S (snd (main (armed w))) = []"
    proof cases
      case 1
      then have "main (armed w) = commands pre (armed w)"
        by (simp add: split commands_append_stop)
      with s1 show ?thesis by (simp add: w1_def)
    next
      case 2
      then have "main (armed w) = install_argocd w1"
        by (simp add: split commands_append_go commands_stop call_id never_returns_stages w1_def)
      with 2(2) s1 show ?thesis by (simp add: install_argocd_spawns)
    qed
    with assms show False
      by (simp add: list_ex_iff filter_empty_conv)
  qed
  then have run: "main (armed w) = commands post w2"
    by (simp add: split commands_append_go commands_go call_id never_returns_stages w1_def w2_def)
  have s2: "?S w2 = [Spawn (next_pid w)]"
    using spawned s1 p1 by (simp add: w2_def install_argocd_spawns)
  have p2: "pidfile w2 = Some (next_pid w)" "alive w2 = insert (next_pid w) (alive w)"
    using install_argocd_procs [of w1] spawned p1 by (simp_all add: w2_def procs_def)
  have s3: "?S (snd (commands post w2)) = ?S w2"
    using filter_adds [OF post_adds, of is_spawn w2] by (simp add: no_spawn)
  have p3: "procs (snd (commands post w2)) = procs w2"
    using post_keeps by (rule keepsD)
  show "filter is_spawn (trace (snd (main (armed w)))) = [Spawn (next_pid w)]"
    by (simp add: run s3 s2)
  show "pidfile (snd (main (armed w))) = Some (next_pid w)"
    and "alive (snd (main (armed w))) = insert (next_pid w) (alive w)"
    using p3 p2 by (simp_all add: run procs_def)
qed

lemma shell_exit_pidfile:
  assumes "trap_exit w = Some CleanupHandler"
  shows "pidfile (snd (shell_exit st w))
           = (case pidfile w of
                None \<Rightarrow> None
              | Some p \<Rightarrow>
                  if p \<noteq> 0 \<and> p \<noteq> shell_pid w \<and> p \<in> alive w then None else Some p)"
  by (simp add: shell_exit_eq [OF assms] emit_def cleanup_eq split: option.split)

text \<open>
  C1: in every run of the script the EXIT trap fires exactly once, with \<^verbatim>\<open>cleanup\<close>
  as its handler, before the process ends, and the end of the process is the last thing
  that happens. This holds whether \<^verbatim>\<open>main\<close> completes, a command fails under
  \<^verbatim>\<open>set -e\<close>, or a termination signal interrupts a command. In every run in
  which the tunnel was started, the trap fires after the start, and from then on the
  run consists of \<^verbatim>\<open>cleanup\<close> sending the termination signal to the tunnel
  process and removing the handle file, and of the end of the process; afterwards the
  handle file is gone and the tunnel process is not running.
\<close>

theorem cleanup_runs_once_on_every_exit:
  "filter is_trap (trace (snd (script w))) = [RunTrap CleanupHandler]
   \<and> precedes is_trap is_exit (trace (snd (script w)))
   \<and> last (trace (snd (script w))) = ProcessExit (fst (script w))
   \<and> length (filter is_exit (trace (snd (script w)))) = 1
   \<and> (list_ex is_spawn (trace (snd (script w))) \<longrightarrow>
        precedes is_spawn is_trap (trace (snd (script w)))
        \<and> drop (length (before_trap (trace (snd (script w))))) (trace (snd (script w)))
            = [RunTrap CleanupHandler, Kill (next_pid w), RemovePid,
               ProcessExit (fst (script w))]
        \<and> pidfile (snd (script w)) = None
        \<and> next_pid w \<notin> alive (snd (script w)))"
proof -
  let ?end = "snd (main (armed w))"
  let ?body = "trace ?end"
  let ?tail = "RunTrap CleanupHandler # cleanup_events ?end @ [ProcessExit (fst (script w))]"
  have tr: "trace (snd (script w)) = ?body @ ?tail"
    by (simp add: script_trace script_status)
  note quiet = stage_events_quiet [OF main_events, of w]
  have once: "filter is_trap (trace (snd (script w))) = [RunTrap CleanupHandler]"
    by (simp add: tr quiet(1) cleanup_events_quiet)
  have order: "precedes is_trap is_exit (trace (snd (script w)))"
    unfolding tr
    by (subst precedes_skip) (use quiet in \<open>simp_all add: list_all_iff\<close>)
  have final: "last (trace (snd (script w))) = ProcessExit (fst (script w))"
    by (simp add: tr)
  have one_exit: "length (filter is_exit (trace (snd (script w)))) = 1"
    by (simp add: tr quiet(2) cleanup_events_quiet)
  have started:
    "precedes is_spawn is_trap (trace (snd (script w)))
     \<and> drop (length (before_trap (trace (snd (script w))))) (trace (snd (script w)))
         = [RunTrap CleanupHandler, Kill (next_pid w), RemovePid, ProcessExit (fst (script w))]
     \<and> pidfile (snd (script w)) = None
     \<and> next_pid w \<notin> alive (snd (script w))"
    if "list_ex is_spawn (trace (snd (script w)))"
  proof -
    from that have body: "list_ex is_spawn ?body"
      using cleanup_events_quiet(4) [of ?end]
      by (auto simp: tr list_ex_iff list_all_iff)
    then have 1: "precedes is_spawn is_trap (trace (snd (script w)))"
      unfolding tr by (rule precedes_hit) (rule quiet(3))
    have positive: "next_pid w \<noteq> 0" "next_pid w \<noteq> shell_pid w"
      by (simp_all add: next_pid_def)
    note tunnel = main_tunnel(2,3) [OF body]
    have same: "shell_pid ?end = shell_pid w"
      using keepsD [OF keeps_main_shell, of "armed w"] by simp
    from tunnel positive same have ev: "cleanup_events ?end = [Kill (next_pid w), RemovePid]"
      by (simp add: cleanup_events_def)
    have 2: "drop (length (before_trap (trace (snd (script w))))) (trace (snd (script w)))
         = [RunTrap CleanupHandler, Kill (next_pid w), RemovePid, ProcessExit (fst (script w))]"
      unfolding before_trap_script by (simp add: tr ev)
    have 3: "pidfile (snd (script w)) = None"
      using positive
      by (simp add: script_eq shell_exit_pidfile [OF trap_exit_main] tunnel same)
    have 4: "next_pid w \<notin> alive (snd (script w))"
      using positive
      by (simp add: script_eq shell_exit_trap(4) [OF trap_exit_main] tunnel same)
    from 1 2 3 4 show ?thesis by blast
  qed
  from once order final one_exit started show ?thesis by blast
qed

theorem cleanup_runs_once_on_every_exit_witness:
  "(fst (script fresh_host) = Continue
    \<and> list_ex is_spawn (trace (snd (script fresh_host)))
    \<and> filter is_trap (trace (snd (script fresh_host))) = [RunTrap CleanupHandler]
    \<and> precedes is_spawn is_trap (trace (snd (script fresh_host)))
    \<and> alive (snd (script fresh_host)) = {})
   \<and> (fst (script no_descriptor) = Exiting 1
    \<and> list_ex is_spawn (trace (snd (script no_descriptor)))
    \<and> filter is_trap (trace (snd (script no_descriptor))) = [RunTrap CleanupHandler]
    \<and> precedes is_spawn is_trap (trace (snd (script no_descriptor)))
    \<and> drop (length (before_trap (trace (snd (script no_descriptor)))))
         (trace (snd (script no_descriptor)))
        = [RunTrap CleanupHandler, Kill 100, RemovePid, ProcessExit (Exiting 1)])
   \<and> (fst (script interrupted_sync) = Killed
    \<and> list_ex is_spawn (trace (snd (script interrupted_sync)))
    \<and> filter is_trap (trace (snd (script interrupted_sync))) = [RunTrap CleanupHandler]
    \<and> precedes is_spawn is_trap (trace (snd (script interrupted_sync)))
    \<and> drop (length (before_trap (trace (snd (script interrupted_sync)))))
         (trace (snd (script interrupted_sync)))
        = [RunTrap CleanupHandler, Kill 100, RemovePid, ProcessExit Killed])"
proof -
  have spawned:
    "list_ex is_spawn (trace (snd (script fresh_host)))"
    "list_ex is_spawn (trace (snd (script no_descriptor)))"
    "list_ex is_spawn (trace (snd (script interrupted_sync)))"
    by (subst spawn_in_actions,
        simp add: run_fresh_host run_no_descriptor run_interrupted_sync)+
  have pids: "next_pid fresh_host = 100" "next_pid no_descriptor = 100"
    "next_pid interrupted_sync = 100" "alive fresh_host = {}"
    by (simp_all add: fresh_host_def no_descriptor_def interrupted_sync_def next_pid_def)
  have "alive (snd (script fresh_host)) = {}"
    by (simp add: fresh_host_def run_defs)
  with spawned pids cleanup_runs_once_on_every_exit [of fresh_host]
    cleanup_runs_once_on_every_exit [of no_descriptor]
    cleanup_runs_once_on_every_exit [of interrupted_sync]
  show ?thesis
    by (simp add: run_fresh_host(1) run_no_descriptor(1) run_interrupted_sync(1))
qed

section \<open>Properties of \<^verbatim>\<open>cleanup\<close>\<close>

lemma cleanup_no_file: "pidfile w = None \<Longrightarrow> cleanup w = (Continue, w)"
  by (simp add: cleanup_eq)

lemma cleanup_dead:
  "pidfile w = Some p \<Longrightarrow> p \<noteq> 0 \<Longrightarrow> p \<noteq> shell_pid w \<Longrightarrow> p \<notin> alive w \<Longrightarrow>
   cleanup w = (Continue, w)"
  by (simp add: cleanup_eq)

lemma cleanup_live:
  "pidfile w = Some p \<Longrightarrow> p \<noteq> 0 \<Longrightarrow> p \<noteq> shell_pid w \<Longrightarrow> p \<in> alive w \<Longrightarrow>
   cleanup w =
     (Continue, w\<lparr>alive := alive w - {p}, pidfile := None,
                  trace := trace w @ [Kill p, RemovePid]\<rparr>)"
  by (simp add: cleanup_eq)

text \<open>
  C4, as the spec states it, fails: when the handle file exists and the recorded process
  is already dead, \<^verbatim>\<open>cleanup\<close> leaves the file in place (\<^verbatim>\<open>rm -f\<close> is inside
  the liveness test, lines 208-211), so the persisted record is not removed.
\<close>

theorem cleanup_keeps_stale_record:
  "pidfile stale_handle = Some 4242 \<and> 4242 \<notin> alive stale_handle
   \<and> cleanup stale_handle = (Continue, stale_handle)
   \<and> pidfile (snd (cleanup stale_handle)) = Some 4242"
  by (simp add: stale_handle_def fresh_host_def cleanup_def kill_0_def)

text \<open>
  C4, amended, for a handle file that is absent or holds the identifier of a process
  other than the shell itself (a positive number that is not the shell's). With no
  handle file \<^verbatim>\<open>cleanup\<close> is a successful no-op. With a handle file whose process
  is already dead it is a successful no-op too: nothing changes, and the handle file
  stays. With a handle file whose process is alive it sends the termination signal to
  that process and to no other, and then removes the handle file. A handle file that
  holds 0 or the identifier of the shell is left out here: the signal then ends the
  shell before the file is removed.
\<close>

theorem cleanup_behaviour:
  assumes "pidfile w \<noteq> Some 0" and "pidfile w \<noteq> Some (shell_pid w)"
  shows "(case pidfile w of
            None \<Rightarrow> cleanup w = (Continue, w)
          | Some p \<Rightarrow>
              if p \<in> alive w
              then pidfile (snd (cleanup w)) = None
                   \<and> alive (snd (cleanup w)) = alive w - {p}
                   \<and> trace (snd (cleanup w)) = trace w @ [Kill p, RemovePid]
              else cleanup w = (Continue, w))"
proof (cases "pidfile w")
  case None
  then show ?thesis by (simp add: cleanup_no_file)
next
  case (Some p)
  with assms have p: "p \<noteq> 0" "p \<noteq> shell_pid w" by auto
  show ?thesis
  proof (cases "p \<in> alive w")
    case True
    with Some p show ?thesis by (simp add: cleanup_live)
  next
    case False
    with Some p show ?thesis by (simp add: cleanup_dead)
  qed
qed

theorem cleanup_behaviour_witness:
  "pidfile live_handle = Some 4242
   \<and> shell_pid live_handle = 90
   \<and> 4242 \<in> alive live_handle
   \<and> pidfile (snd (cleanup live_handle)) = None
   \<and> alive (snd (cleanup live_handle)) = {}
   \<and> trace (snd (cleanup live_handle)) = [Kill 4242, RemovePid]
   \<and> pidfile stale_handle = Some 4242
   \<and> cleanup stale_handle = (Continue, stale_handle)
   \<and> pidfile fresh_host = None
   \<and> cleanup fresh_host = (Continue, fresh_host)"
proof -
  have handles: "pidfile live_handle = Some 4242" "alive live_handle = {4242}"
    "trace live_handle = []" "pidfile stale_handle = Some 4242" "alive stale_handle = {}"
    "pidfile fresh_host = None" "shell_pid live_handle = 90" "shell_pid stale_handle = 90"
    by (simp_all add: live_handle_def stale_handle_def fresh_host_def)
  from cleanup_behaviour [of live_handle] cleanup_behaviour [of stale_handle]
    cleanup_behaviour [of fresh_host]
  show ?thesis
    by (simp add: handles)
qed

text \<open>
  C10, as the spec states it, fails for a handle file that holds 0. \<^verbatim>\<open>kill -0 0\<close>
  succeeds, \<^verbatim>\<open>kill 0\<close> sends the termination signal to the process group of the
  shell, which ends the shell before \<^verbatim>\<open>rm -f\<close> runs: the handle file is still
  there, and a second \<^verbatim>\<open>cleanup\<close> sends the signal again.
\<close>

theorem cleanup_twice_signals_twice:
  "pidfile zero_handle = Some 0
   \<and> fst (cleanup zero_handle) = Killed
   \<and> pidfile (snd (cleanup zero_handle)) = Some 0
   \<and> alive (snd (cleanup zero_handle)) = {}
   \<and> trace (snd (cleanup zero_handle)) = [Kill 0]
   \<and> fst (cleanup (snd (cleanup zero_handle))) = Killed
   \<and> trace (snd (cleanup (snd (cleanup zero_handle)))) = [Kill 0, Kill 0]"
  by (simp add: zero_handle_def fresh_host_def cleanup_eq)

text \<open>
  C10, amended: for a handle file that is absent or holds the identifier of a process
  other than the shell itself (a positive number that is not the shell's),
  \<^verbatim>\<open>cleanup\<close> is idempotent. Run a second time right after itself, it succeeds
  and leaves the whole world as the first run left it: the same handle file, the same
  live processes, and nothing added to the trace, so no \<^verbatim>\<open>kill\<close> and no removal
  of the file.
\<close>

theorem cleanup_idempotent:
  assumes "pidfile w \<noteq> Some 0" and "pidfile w \<noteq> Some (shell_pid w)"
  shows "cleanup (snd (cleanup w)) = (Continue, snd (cleanup w))
         \<and> pidfile (snd (cleanup (snd (cleanup w)))) = pidfile (snd (cleanup w))
         \<and> alive (snd (cleanup (snd (cleanup w)))) = alive (snd (cleanup w))
         \<and> trace (snd (cleanup (snd (cleanup w)))) = trace (snd (cleanup w))"
proof -
  have "cleanup (snd (cleanup w)) = (Continue, snd (cleanup w))"
  proof (cases "pidfile w")
    case None
    then show ?thesis by (simp add: cleanup_no_file)
  next
    case (Some p)
    with assms have p: "p \<noteq> 0" "p \<noteq> shell_pid w" by auto
    show ?thesis
    proof (cases "p \<in> alive w")
      case True
      with Some p show ?thesis by (simp add: cleanup_live cleanup_no_file)
    next
      case False
      with Some p show ?thesis by (simp add: cleanup_dead)
    qed
  qed
  then show ?thesis by simp
qed

theorem cleanup_idempotent_witness:
  "pidfile live_handle = Some 4242
   \<and> shell_pid live_handle = 90
   \<and> trace (snd (cleanup live_handle)) = [Kill 4242, RemovePid]
   \<and> cleanup (snd (cleanup live_handle)) = (Continue, snd (cleanup live_handle))
   \<and> trace (snd (cleanup (snd (cleanup live_handle)))) = [Kill 4242, RemovePid]
   \<and> pidfile (snd (cleanup (snd (cleanup live_handle)))) = None
   \<and> pidfile stale_handle = Some 4242
   \<and> cleanup (snd (cleanup stale_handle)) = (Continue, snd (cleanup stale_handle))
   \<and> trace (snd (cleanup (snd (cleanup stale_handle)))) = []
   \<and> pidfile (snd (cleanup (snd (cleanup stale_handle)))) = Some 4242"
proof -
  have handles: "pidfile live_handle = Some 4242" "pidfile stale_handle = Some 4242"
    "shell_pid live_handle = 90" "shell_pid stale_handle = 90"
    by (simp_all add: live_handle_def stale_handle_def fresh_host_def)
  have once: "trace (snd (cleanup live_handle)) = [Kill 4242, RemovePid]"
    "pidfile (snd (cleanup live_handle)) = None"
    "trace (snd (cleanup stale_handle)) = []"
    "pidfile (snd (cleanup stale_handle)) = Some 4242"
    by (simp_all add: live_handle_def stale_handle_def fresh_host_def cleanup_eq)
  from cleanup_idempotent [of live_handle] cleanup_idempotent [of stale_handle]
  show ?thesis
    by (simp add: handles once)
qed

section \<open>Properties of \<^verbatim>\<open>validateEnvironment\<close>\<close>

lemma set_prop_keys: "fst ` set (set_prop k v inst) = insert k (fst ` set inst)"
  by (induction inst) force+

lemma foldl_set_prop_keys:
  "fst ` set (foldl (\<lambda>inst kv. if skip (fst kv) then inst
                                 else set_prop (fst kv) (f (fst kv) (snd kv)) inst) inst0 plain)
     = fst ` set inst0 \<union> {k \<in> fst ` set plain. \<not> skip k}"
  by (induction plain arbitrary: inst0) (auto simp: set_prop_keys)

lemma plainToClass_keys:
  "fst ` set (plainToClass js config plain opts)
     = fst ` set (new_instance config) \<union> {k \<in> fst ` set plain. \<not> skipped_key k}"
  unfolding plainToClass_def by (rule foldl_set_prop_keys)

lemma foldl_skips:
  "foldl (\<lambda>inst kv. if skip (fst kv) then inst else g inst kv) inst0 plain
     = foldl (\<lambda>inst kv. if skip (fst kv) then inst else g inst kv) inst0
         (filter (\<lambda>kv. \<not> skip (fst kv)) plain)"
  by (induction plain arbitrary: inst0) simp_all

lemma plainToClass_skips:
  "plainToClass js config plain opts
     = plainToClass js config (filter (\<lambda>kv. \<not> skipped_key (fst kv)) plain) opts"
  unfolding plainToClass_def by (rule foldl_skips)

lemma has_metadata_iff: "has_metadata config k \<longleftrightarrow> k \<in> set (map pname config)"
  by (auto simp: has_metadata_def list_ex_iff)

lemma validateEnvironment_Inr_iff:
  "(\<exists>cfg. validateEnvironment js config envVars = Inr cfg) \<longleftrightarrow>
   fst (validateSync config (plainToClass js config envVars \<lparr>enableImplicitConversion = True\<rparr>)
         \<lparr>skipMissingProperties = False, whitelist = True, forbidNonWhitelisted = True\<rparr>) = []"
  by (auto simp: validateEnvironment_def Let_def split: prod.splits)

lemma validateEnvironment_cases:
  "(\<exists>msg. validateEnvironment js config envVars = Inl (Error msg)) \<or>
   (\<exists>cfg. validateEnvironment js config envVars = Inr cfg)"
  by (auto simp: validateEnvironment_def Let_def split: prod.splits)

lemma forbidden_errors:
  "k \<in> fst ` set object \<Longrightarrow> \<not> has_metadata config k \<Longrightarrow>
   fst (validateSync config object
         \<lparr>skipMissingProperties = False, whitelist = True, forbidNonWhitelisted = True\<rparr>) \<noteq> []"
  by (auto simp: validateSync_def notAllowedProperties_def Let_def filter_empty_conv)

lemma validateEnvironment_skips:
  "validateEnvironment js config envVars
     = validateEnvironment js config (filter (\<lambda>kv. \<not> skipped_key (fst kv)) envVars)"
proof -
  have "plainToClass js config envVars \<lparr>enableImplicitConversion = True\<rparr>
          = plainToClass js config (filter (\<lambda>kv. \<not> skipped_key (fst kv)) envVars)
              \<lparr>enableImplicitConversion = True\<rparr>"
    by (rule plainToClass_skips)
  then show ?thesis
    unfolding validateEnvironment_def by (rule arg_cong)
qed

text \<open>
  C9, as the spec states it, fails: \<^verbatim>\<open>plainToClass\<close> passes over the key
  \<^verbatim>\<open>constructor\<close>, so the instance that \<^verbatim>\<open>validateSync\<close> sees does not have
  it, and an input whose only property is that undeclared key comes back as a validated
  configuration (the one of the defaults).
\<close>

theorem validateEnvironment_accepts_constructor_key:
  "\<forall>js. ''constructor'' \<notin> set (map pname BaseEnvironmentConfig)
        \<and> validateEnvironment js BaseEnvironmentConfig [(''constructor'', Str ''x'')]
            = Inr [(''NODE_ENV'', Str ''development''), (''PORT'', Num (Finite 3000 0)),
                   (''LOG_LEVEL'', Str ''info'')]"
  by (simp add: validateEnvironment_def plainToClass_def validateSync_def BaseEnvironmentConfig_def
      new_instance_def notAllowedProperties_def has_metadata_def property_errors_def
      skipped_key_def Environment_def LogLevel_def)

text \<open>
  C9, amended: whenever the input object has a property that the schema class does not
  declare and whose name is not one of those that \<^verbatim>\<open>plainToClass\<close> passes over
  (\<^verbatim>\<open>__proto__\<close>, \<^verbatim>\<open>constructor\<close>, the names of the inherited methods),
  \<^verbatim>\<open>validateEnvironment\<close> throws an \<^verbatim>\<open>Error\<close>, whatever the values of the
  declared properties are; so it returns a configuration only for inputs each of whose
  properties is declared on the schema or has one of those names. The properties with
  those names are ignored altogether: the result is the one for the input without them.
\<close>

theorem validateEnvironment_forbids_undeclared:
  "((\<exists>k \<in> set (map fst envVars). k \<notin> set (map pname config) \<and> \<not> skipped_key k) \<longrightarrow>
      (\<exists>msg. validateEnvironment js config envVars = Inl (Error msg)))
   \<and> ((\<exists>cfg. validateEnvironment js config envVars = Inr cfg) \<longrightarrow>
        (\<forall>k \<in> set (map fst envVars). k \<in> set (map pname config) \<or> skipped_key k))
   \<and> validateEnvironment js config envVars
       = validateEnvironment js config (filter (\<lambda>kv. \<not> skipped_key (fst kv)) envVars)"
proof -
  have undeclared: "\<exists>msg. validateEnvironment js config envVars = Inl (Error msg)"
    if k: "k \<in> set (map fst envVars)" "k \<notin> set (map pname config)" "\<not> skipped_key k" for k
  proof -
    from k(1,3)
    have "k \<in> fst ` set (plainToClass js config envVars \<lparr>enableImplicitConversion = True\<rparr>)"
      by (simp add: plainToClass_keys)
    moreover from k(2) have "\<not> has_metadata config k"
      by (simp add: has_metadata_iff)
    ultimately have "\<not> (\<exists>cfg. validateEnvironment js config envVars = Inr cfg)"
      unfolding validateEnvironment_Inr_iff by (rule forbidden_errors)
    with validateEnvironment_cases [of js config envVars] show ?thesis by blast
  qed
  show ?thesis
  proof (intro conjI impI)
    assume "\<exists>k \<in> set (map fst envVars). k \<notin> set (map pname config) \<and> \<not> skipped_key k"
    then show "\<exists>msg. validateEnvironment js config envVars = Inl (Error msg)"
      using undeclared by blast
  next
    assume ok: "\<exists>cfg. validateEnvironment js config envVars = Inr cfg"
    show "\<forall>k \<in> set (map fst envVars). k \<in> set (map pname config) \<or> skipped_key k"
    proof (rule ballI, rule ccontr)
      fix k
      assume k: "k \<in> set (map fst envVars)"
        and nk: "\<not> (k \<in> set (map pname config) \<or> skipped_key k)"
      from nk have "k \<notin> set (map pname config)" and "\<not> skipped_key k"
        by blast+
      with k have "\<exists>msg. validateEnvironment js config envVars = Inl (Error msg)"
        by (rule undeclared)
      with ok show False by auto
    qed
  next
    show "validateEnvironment js config envVars
            = validateEnvironment js config (filter (\<lambda>kv. \<not> skipped_key (fst kv)) envVars)"
      by (rule validateEnvironment_skips)
  qed
qed

theorem validateEnvironment_forbids_undeclared_witness:
  "\<forall>js. ''PATH'' \<notin> set (map pname BaseEnvironmentConfig)
        \<and> \<not> skipped_key ''PATH''
        \<and> validateEnvironment js BaseEnvironmentConfig
            [(''NODE_ENV'', Str ''production''), (''PATH'', Str ''/usr/bin'')]
          = Inl (Error ''Environment validation failed: property PATH should not exist'')
        \<and> validateEnvironment js BaseEnvironmentConfig
            [(''NODE_ENV'', Str ''production''), (''LOG_LEVEL'', Str ''debug'')]
          = Inr [(''NODE_ENV'', Str ''production''), (''PORT'', Num (Finite 3000 0)),
                 (''LOG_LEVEL'', Str ''debug'')]
        \<and> validateEnvironment js BaseEnvironmentConfig
            [(''NODE_ENV'', Str ''production''), (''toString'', Str ''x'')]
          = Inr [(''NODE_ENV'', Str ''production''), (''PORT'', Num (Finite 3000 0)),
                 (''LOG_LEVEL'', Str ''info'')]"
proof
  fix js
  from validateEnvironment_forbids_undeclared
    [of "[(''NODE_ENV'', Str ''production''), (''PATH'', Str ''/usr/bin'')]"
        BaseEnvironmentConfig js]
    validateEnvironment_forbids_undeclared
    [of "[(''NODE_ENV'', Str ''production''), (''LOG_LEVEL'', Str ''debug'')]"
        BaseEnvironmentConfig js]
    validateEnvironment_forbids_undeclared
    [of "[(''NODE_ENV'', Str ''production''), (''toString'', Str ''x'')]"
        BaseEnvironmentConfig js]
  show "''PATH'' \<notin> set (map pname BaseEnvironmentConfig)
        \<and> \<not> skipped_key ''PATH''
        \<and> validateEnvironment js BaseEnvironmentConfig
            [(''NODE_ENV'', Str ''production''), (''PATH'', Str ''/usr/bin'')]
          = Inl (Error ''Environment validation failed: property PATH should not exist'')
        \<and> validateEnvironment js BaseEnvironmentConfig
            [(''NODE_ENV'', Str ''production''), (''LOG_LEVEL'', Str ''debug'')]
          = Inr [(''NODE_ENV'', Str ''production''), (''PORT'', Num (Finite 3000 0)),
                 (''LOG_LEVEL'', Str ''debug'')]
        \<and> validateEnvironment js BaseEnvironmentConfig
            [(''NODE_ENV'', Str ''production''), (''toString'', Str ''x'')]
          = Inr [(''NODE_ENV'', Str ''production''), (''PORT'', Num (Finite 3000 0)),
                 (''LOG_LEVEL'', Str ''info'')]"
    by (simp add: validateEnvironment_def plainToClass_def validateSync_def
        BaseEnvironmentConfig_def new_instance_def transformed_value_def
        implicit_conversion_def String_js_def notAllowedProperties_def has_metadata_def
        property_errors_def whitelist_error_def skipped_key_def Object_prototype_methods_def
        Environment_def LogLevel_def)
qed

end
